theory Spec2Isabelle
  imports Complex_Main
begin

section \<open>Constants (constants.ts)\<close>

definition ENEMY_COUNT :: nat where "ENEMY_COUNT = 4"
definition SPAWN_RADIUS :: real where "SPAWN_RADIUS = 15"
definition SPEED_MIN :: real where "SPEED_MIN = 0.05"
definition SPEED_MAX :: real where "SPEED_MAX = 0.12"
definition AIM_ASSIST_RADIUS :: real where "AIM_ASSIST_RADIUS = 1.5"
definition AIM_ASSIST_STRENGTH :: real where "AIM_ASSIST_STRENGTH = 0.4"
definition DETECTION_FREQ_MS :: int where "DETECTION_FREQ_MS = 33"
definition TRIGGER_THRESHOLD :: real where "TRIGGER_THRESHOLD = 0.06"

section \<open>Vectors\<close>

text \<open>
  The scene library's three-component vector. JavaScript numbers are read as reals
  (no rounding, no NaN). The operations mutate their receiver in the source; here each
  returns the receiver's new value. \<open>normalize\<close> divides by \<open>length() || 1\<close>, so the zero
  vector stays the zero vector; \<open>angleTo\<close> answers a right angle when either vector is
  zero and clamps the cosine to \<open>[-1, 1]\<close> otherwise.
\<close>

datatype vec3 = Vector3 (vx: real) (vy: real) (vz: real)

definition add_v :: "vec3 \<Rightarrow> vec3 \<Rightarrow> vec3" where
  "add_v a b = Vector3 (vx a + vx b) (vy a + vy b) (vz a + vz b)"

definition sub_v :: "vec3 \<Rightarrow> vec3 \<Rightarrow> vec3" where
  "sub_v a b = Vector3 (vx a - vx b) (vy a - vy b) (vz a - vz b)"

definition multiplyScalar :: "vec3 \<Rightarrow> real \<Rightarrow> vec3" where
  "multiplyScalar a s = Vector3 (vx a * s) (vy a * s) (vz a * s)"

definition divideScalar :: "vec3 \<Rightarrow> real \<Rightarrow> vec3" where
  "divideScalar a s = multiplyScalar a (1 / s)"

definition dot_v :: "vec3 \<Rightarrow> vec3 \<Rightarrow> real" where
  "dot_v a b = vx a * vx b + vy a * vy b + vz a * vz b"

definition lengthSq :: "vec3 \<Rightarrow> real" where
  "lengthSq a = vx a * vx a + vy a * vy a + vz a * vz a"

definition length_v :: "vec3 \<Rightarrow> real" where
  "length_v a = sqrt (vx a * vx a + vy a * vy a + vz a * vz a)"

definition normalize_v :: "vec3 \<Rightarrow> vec3" where
  "normalize_v a = divideScalar a (if length_v a = 0 then 1 else length_v a)"

definition clamp :: "real \<Rightarrow> real \<Rightarrow> real \<Rightarrow> real" where
  "clamp v lo hi = max lo (min hi v)"

definition angleTo :: "vec3 \<Rightarrow> vec3 \<Rightarrow> real" where
  "angleTo a b =
     (let denominator = sqrt (lengthSq a * lengthSq b)
      in if denominator = 0 then pi / 2
         else arccos (clamp (dot_v a b / denominator) (- 1) 1))"

definition lerp :: "vec3 \<Rightarrow> vec3 \<Rightarrow> real \<Rightarrow> vec3" where
  "lerp a b alpha =
     Vector3 (vx a + (vx b - vx a) * alpha)
             (vy a + (vy b - vy a) * alpha)
             (vz a + (vz b - vz a) * alpha)"

section \<open>Data model (types.ts)\<close>

text \<open>A hand landmark: normalised image coordinates.\<close>

datatype point = Point (px: real) (py: real) (pz: real)

datatype flash = Hit | Miss

record gameState =
  score :: int
  combo :: int
  isGameOver :: bool
  handDetected :: bool
  loading :: bool
  loadingProgress :: int
  statusMessage :: string
  lastHitTime :: int
  hitFlash :: "flash option"

text \<open>
  The part of a target's mesh that the game logic reads or writes: its position, the two
  rotation angles the frame loop advances, and its uniform scale. Geometry and material
  belong to the renderer.
\<close>

record mesh =
  position :: vec3
  rotation_x :: real
  rotation_y :: real
  mesh_scale :: real

record enemy =
  eid :: string
  mesh :: mesh
  velocity :: vec3
  spawnTime :: int
  isDying :: bool
  points :: int
  etype :: string

text \<open>
  The label of a floating text is either the reward of a hit, \<open>+n\<close> with an optional flame
  mark, or the word MISS.
\<close>

datatype label = Reward int bool | MISS

record floatingText =
  vid :: string
  ftext :: label
  vpos :: vec3
  color :: string
  life :: real

section \<open>The mutable state of the component\<close>

text \<open>
  Enemy objects are shared by reference: the array being iterated, the current array and
  the closures of pending timeouts all see one object. The store \<open>objects\<close> holds every
  enemy object ever created, an object's address is its index there, and
  \<open>enemies\<close> (the array \<open>enemiesRef.current\<close>) is a list of addresses.

  The scene, camera, renderer, laser and crosshair references are assigned once by
  \<open>initThree\<close>, before any handler is registered, and are never cleared; the state
  modelled here is the state from then on, where the guards on them pass.

  A pending \<open>setTimeout\<close> callback is a value of \<open>timeout\<close>: the reset of the screen flash
  (150 ms) or the removal of a hit enemy and its respawn (100 ms), which holds the
  address of the enemy object it closed over. \<open>timeouts\<close> lists the pending callbacks
  in the order they were set, each with the time it is due. (The 50 ms timeout that
  restores the laser's colour touches the material only.)
\<close>

type_synonym ref = nat

datatype timeout = FlashReset | RemoveRespawn ref

record world =
  gameState :: gameState
  objects :: "enemy list"
  enemies :: "ref list"
  vfx :: "floatingText list"
  isTriggered :: bool
  lastDetection :: int
  timeouts :: "(int \<times> timeout) list"
  spawned :: nat
  laser_position :: vec3
  laser_lookAt :: vec3
  crosshair_position :: vec3
  crosshair_locked :: bool
  crosshair_scale :: real

definition initialGameState :: gameState where
  "initialGameState =
     \<lparr> score = 0, combo = 0, isGameOver = False, handDetected = False, loading = True,
       loadingProgress = 0, statusMessage = ''Initializing neural uplink...'',
       lastHitTime = 0, hitFlash = None \<rparr>"

section \<open>Spawning\<close>

text \<open>
  One call of \<open>spawnEnemy\<close> draws five random numbers: the type band, the angle, the
  height, the speed and the id. The draws are an input: \<open>rng k\<close> is what the \<open>k\<close>-th
  call receives, and \<open>spawned\<close> counts the calls made so far.
\<close>

record draw =
  d_type :: real
  d_angle :: real
  d_height :: real
  d_speed :: real
  d_id :: string

record config =
  c_scale :: real
  c_speedMult :: real
  c_points :: int
  c_type :: string

definition pick_config :: "real \<Rightarrow> config" where
  "pick_config rand =
     (if rand < 0.1 then
        \<lparr> c_scale = 1.0, c_speedMult = 1.3, c_points = 500, c_type = ''phantom'' \<rparr>
      else if rand < 0.25 then
        \<lparr> c_scale = 0.6, c_speedMult = 1.8, c_points = 250, c_type = ''racer'' \<rparr>
      else if rand < 0.45 then
        \<lparr> c_scale = 1.8, c_speedMult = 0.6, c_points = 150, c_type = ''titan'' \<rparr>
      else
        \<lparr> c_scale = 1.0, c_speedMult = 1.0, c_points = 100, c_type = ''normal'' \<rparr>)"

definition new_enemy :: "draw \<Rightarrow> int \<Rightarrow> enemy" where
  "new_enemy d now =
     (let cfg = pick_config (d_type d);
          angle = d_angle d * pi * 2;
          pos = Vector3 (cos angle * SPAWN_RADIUS) ((d_height d - 0.5) * 10)
                        (- sin angle * SPAWN_RADIUS);
          baseSpeed = SPEED_MIN + d_speed d * (SPEED_MAX - SPEED_MIN);
          speed = baseSpeed * c_speedMult cfg
      in \<lparr> eid = d_id d,
           mesh = \<lparr> position = pos, rotation_x = 0, rotation_y = 0,
                    mesh_scale = c_scale cfg \<rparr>,
           velocity = multiplyScalar (normalize_v (sub_v (Vector3 0 0 0) pos)) speed,
           spawnTime = now, isDying = False, points = c_points cfg,
           etype = c_type cfg \<rparr>)"

definition spawnEnemy :: "(nat \<Rightarrow> draw) \<Rightarrow> int \<Rightarrow> world \<Rightarrow> world" where
  "spawnEnemy rng now w =
     w \<lparr> objects := objects w @ [new_enemy (rng (spawned w)) now],
         enemies := enemies w @ [length (objects w)],
         spawned := Suc (spawned w) \<rparr>"

section \<open>Resolving a shot\<close>

text \<open>
  \<open>Array.prototype.findIndex\<close>: the index of the first element that satisfies the
  predicate; \<open>None\<close> stands for the source's \<open>-1\<close>.
\<close>

fun findIndex :: "('a \<Rightarrow> bool) \<Rightarrow> 'a list \<Rightarrow> nat option" where
  "findIndex p [] = None"
| "findIndex p (a # as) = (if p a then Some 0 else map_option Suc (findIndex p as))"

definition triggerFlash :: "int \<Rightarrow> flash \<Rightarrow> world \<Rightarrow> world" where
  "triggerFlash now t w =
     w \<lparr> gameState := (gameState w) \<lparr> hitFlash := Some t \<rparr>,
         timeouts := timeouts w @ [(now + 150, FlashReset)] \<rparr>"

text \<open>
  \<open>handleShoot\<close> is a closure of one render of the component: where its body reads
  \<open>gameState\<close> it reads the snapshot of that render, the parameter \<open>captured\<close>, while the
  updater functions handed to \<open>setGameState\<close> receive the current state, the field
  \<open>gameState\<close> of the world. The ray test of the scene library is the parameter
  \<open>intersectObject origin direction enemy\<close>: true when the list of intersections of the
  ray with the enemy's mesh is not empty. \<open>now\<close> is the clock and \<open>fid\<close> the random id of
  the floating text.
\<close>

definition handleShoot ::
  "gameState \<Rightarrow> (vec3 \<Rightarrow> vec3 \<Rightarrow> enemy \<Rightarrow> bool) \<Rightarrow> int \<Rightarrow> string \<Rightarrow> vec3 \<Rightarrow> vec3 \<Rightarrow> world \<Rightarrow> world"
where
  "handleShoot captured intersectObject now fid direction origin w =
     (case findIndex (\<lambda>r. intersectObject origin direction (objects w ! r)) (enemies w) of
        Some hitEnemyIndex \<Rightarrow>
          (let r = enemies w ! hitEnemyIndex;
               w1 = w \<lparr> objects := (objects w)[r := (objects w ! r) \<lparr> isDying := True \<rparr>] \<rparr>;
               enemy = objects w1 ! r;
               w2 = triggerFlash now Hit w1;
               comboBonus = (combo captured div 5) * 50;
               totalPoints = points enemy + comboBonus;
               w3 = w2 \<lparr> gameState := (gameState w2)
                          \<lparr> score := score (gameState w2) + totalPoints,
                            combo := combo (gameState w2) + 1,
                            lastHitTime := now \<rparr> \<rparr>;
               hitPos = position (mesh enemy);
               w4 = w3 \<lparr> vfx := vfx w3 @
                          [\<lparr> vid = fid, ftext = Reward totalPoints (combo captured > 5),
                             vpos = hitPos, color = ''#4ade80'', life = 1.0 \<rparr>] \<rparr>;
               w5 = w4 \<lparr> objects := (objects w4)
                          [r := enemy \<lparr> mesh := (mesh enemy)
                                 \<lparr> mesh_scale := mesh_scale (mesh enemy) * 2.0 \<rparr> \<rparr>] \<rparr>
           in w5 \<lparr> timeouts := timeouts w5 @ [(now + 100, RemoveRespawn r)] \<rparr>)
      | None \<Rightarrow>
          (let w1 = triggerFlash now Miss w;
               w2 = w1 \<lparr> gameState := (gameState w1) \<lparr> combo := 0 \<rparr> \<rparr>;
               targetPos = add_v origin (multiplyScalar direction 15)
           in w2 \<lparr> vfx := vfx w2 @
                     [\<lparr> vid = fid, ftext = MISS, vpos = targetPos,
                        color = ''#f87171'', life = 1.0 \<rparr>] \<rparr>))"

text \<open>
  The callbacks of pending timeouts. The removal filters the current array by the id of
  the enemy object the closure holds and then spawns one enemy.
\<close>

definition run_timeout :: "(nat \<Rightarrow> draw) \<Rightarrow> int \<Rightarrow> timeout \<Rightarrow> world \<Rightarrow> world" where
  "run_timeout rng now t w =
     (case t of
        FlashReset \<Rightarrow> w \<lparr> gameState := (gameState w) \<lparr> hitFlash := None \<rparr> \<rparr>
      | RemoveRespawn r \<Rightarrow>
          spawnEnemy rng now
            (w \<lparr> enemies := filter (\<lambda>a. eid (objects w ! a) \<noteq> eid (objects w ! r)) (enemies w) \<rparr>))"

section \<open>The detection tick\<close>

text \<open>
  The detector's result: the field \<open>multiHandLandmarks\<close> is absent (\<open>None\<close>) or a list of
  hands, each a list of landmarks. An entry of a hand may be missing (\<open>None\<close>, the
  source's \<open>undefined\<close> or \<open>null\<close>), and so is every entry beyond the end of the list;
  reading a coordinate of a missing entry throws a TypeError.
\<close>

record results =
  multiHandLandmarks :: "point option list list option"

datatype error = TypeError

definition landmark :: "point option list \<Rightarrow> nat \<Rightarrow> point option" where
  "landmark landmarks i = (if i < length landmarks then landmarks ! i else None)"

text \<open>
  The aim of a tracked hand: the ray origin from the index base, the vector from the index
  base to the index tip with its fixed depth (normalised by the caller), and the distance
  in the image plane between the thumb tip and the index base.
\<close>

definition gun_origin :: "point \<Rightarrow> vec3" where
  "gun_origin indexBase =
     Vector3 ((px indexBase - 0.5) * 12) (- (py indexBase - 0.5) * 12) (- 2)"

definition aim_vector :: "point \<Rightarrow> point \<Rightarrow> vec3" where
  "aim_vector indexTip indexBase =
     Vector3 (px indexTip - px indexBase) (- (py indexTip - py indexBase)) (- 0.5)"

definition trigger_dist :: "point \<Rightarrow> point \<Rightarrow> real" where
  "trigger_dist thumbTip indexBase =
     sqrt ((px thumbTip - px indexBase)\<^sup>2 + (py thumbTip - py indexBase)\<^sup>2)"

text \<open>
  The body of the loop over the enemies in the aim assist; its state is the pair of
  \<open>finalAimDir\<close> and \<open>targetFound\<close>.
\<close>

definition assist_enemy :: "vec3 \<Rightarrow> enemy \<Rightarrow> vec3 \<times> bool \<Rightarrow> vec3 \<times> bool" where
  "assist_enemy gunOrigin enemy s =
     (if isDying enemy then s
      else
        (let toEnemy = normalize_v (sub_v (position (mesh enemy)) gunOrigin);
             angle = angleTo (fst s) toEnemy
         in if angle < AIM_ASSIST_RADIUS * (pi / 180) * 6
            then (lerp (fst s) toEnemy AIM_ASSIST_STRENGTH, True)
            else s))"

definition aim_assist :: "vec3 \<Rightarrow> enemy list \<Rightarrow> vec3 \<Rightarrow> vec3 \<times> bool" where
  "aim_assist gunOrigin es aimDirection = fold (assist_enemy gunOrigin) es (aimDirection, False)"

text \<open>
  What a call of \<open>onResults\<close> did, beside the state it leaves: it returned at the rate
  limit, it took the branch without a hand, its \<open>try\<close> block threw (the handler logs
  the error and returns), or it tracked the hand and did or did not call \<open>handleShoot\<close>.
\<close>

datatype tick = Throttled | NoHand | Raised error | Tracked bool

definition onResults ::
  "gameState \<Rightarrow> (vec3 \<Rightarrow> vec3 \<Rightarrow> enemy \<Rightarrow> bool) \<Rightarrow> int \<Rightarrow> string \<Rightarrow> results \<Rightarrow> world \<Rightarrow> world \<times> tick"
where
  "onResults captured intersectObject now fid results w =
     (if now - lastDetection w < DETECTION_FREQ_MS then (w, Throttled)
      else
        (let w0 = w \<lparr> lastDetection := now \<rparr>;
             noHand = w0 \<lparr> gameState :=
                        (if \<not> handDetected (gameState w0) then gameState w0
                         else (gameState w0) \<lparr> handDetected := False \<rparr>) \<rparr>
         in case multiHandLandmarks results of
              None \<Rightarrow> (noHand, NoHand)
            | Some [] \<Rightarrow> (noHand, NoHand)
            | Some (landmarks # _) \<Rightarrow>
               (let w1 = w0 \<lparr> gameState :=
                           (if handDetected (gameState w0) then gameState w0
                            else (gameState w0) \<lparr> handDetected := True \<rparr>) \<rparr>
                in case landmark landmarks 5 of
                     None \<Rightarrow> (w1, Raised TypeError)
                   | Some indexBase \<Rightarrow>
                 (case landmark landmarks 8 of
                     None \<Rightarrow> (w1, Raised TypeError)
                   | Some indexTip \<Rightarrow>
                  (let gunOrigin = gun_origin indexBase;
                       aimDirection = normalize_v (aim_vector indexTip indexBase);
                       assisted = aim_assist gunOrigin
                                    (map (\<lambda>r. objects w1 ! r) (enemies w1)) aimDirection;
                       finalAimDir = fst assisted;
                       targetFound = snd assisted;
                       lookTarget = add_v gunOrigin finalAimDir;
                       scaledAimDir = multiplyScalar finalAimDir 20;
                       crosshairPos = add_v gunOrigin scaledAimDir;
                       w2 = w1 \<lparr> laser_position := gunOrigin,
                                 crosshair_locked := targetFound,
                                 crosshair_scale :=
                                   (if targetFound
                                    then 1.6 + sin (real_of_int now * 0.01) * 0.2 else 1.0),
                                 laser_lookAt := lookTarget,
                                 crosshair_position := crosshairPos \<rparr>
                   in case landmark landmarks 4 of
                        None \<Rightarrow> (w2, Raised TypeError)
                      | Some thumbTip \<Rightarrow>
                         (let dist = trigger_dist thumbTip indexBase
                          in if dist < TRIGGER_THRESHOLD then
                               (if \<not> isTriggered w2 then
                                  (handleShoot captured intersectObject now fid
                                     (normalize_v scaledAimDir) gunOrigin
                                     (w2 \<lparr> isTriggered := True \<rparr>), Tracked True)
                                else (w2, Tracked False))
                             else (w2 \<lparr> isTriggered := False \<rparr>, Tracked False)))))))"

section \<open>The frame loop\<close>

definition advance :: "int \<Rightarrow> enemy \<Rightarrow> enemy" where
  "advance now e =
     (let m = mesh e;
          m1 = m \<lparr> position := add_v (position m) (velocity e),
                   rotation_x := rotation_x m + 0.02,
                   rotation_y := rotation_y m + 0.03 \<rparr>;
          m2 = (if etype e = ''phantom''
                then m1 \<lparr> mesh_scale := 1.0 + sin (real_of_int now * 0.005) * 0.2 \<rparr>
                else m1)
      in e \<lparr> mesh := m2 \<rparr>)"

text \<open>
  The body of the loop over the enemies in \<open>animate\<close>, for the enemy object at address
  \<open>r\<close>. The loop runs over the array as it was when the loop began; the removal assigns
  a new, filtered array to \<open>enemiesRef.current\<close>, and \<open>spawnEnemy\<close> pushes onto that one.
\<close>

definition animate_enemy :: "(nat \<Rightarrow> draw) \<Rightarrow> int \<Rightarrow> ref \<Rightarrow> world \<Rightarrow> world" where
  "animate_enemy rng now r w =
     (let w1 = (if \<not> isDying (objects w ! r)
                then w \<lparr> objects := (objects w)[r := advance now (objects w ! r)] \<rparr>
                else w);
          enemy = objects w1 ! r
      in if length_v (position (mesh enemy)) > 30 then
           spawnEnemy rng now
             (w1 \<lparr> enemies := filter (\<lambda>a. eid (objects w1 ! a) \<noteq> eid enemy) (enemies w1) \<rparr>)
         else w1)"

text \<open>
  The filter over the floating texts: its callback ages the item, lifts it, and keeps it
  while its life is positive.
\<close>

definition age :: "floatingText \<Rightarrow> floatingText" where
  "age v = v \<lparr> life := life v - 0.025,
               vpos := Vector3 (vx (vpos v)) (vy (vpos v) + 0.04) (vz (vpos v)) \<rparr>"

fun age_vfx :: "floatingText list \<Rightarrow> floatingText list" where
  "age_vfx [] = []"
| "age_vfx (v # vs) = (if life (age v) > 0 then age v # age_vfx vs else age_vfx vs)"

definition animate :: "(nat \<Rightarrow> draw) \<Rightarrow> int \<Rightarrow> world \<Rightarrow> world" where
  "animate rng now w =
     (let w1 = fold (animate_enemy rng now) (enemies w) w
      in w1 \<lparr> vfx := age_vfx (vfx w1) \<rparr>)"

section \<open>The component as a whole\<close>

text \<open>
  The state when the component mounts, and \<open>initThree\<close>, which spawns the initial
  population.
\<close>

definition unmounted :: world where
  "unmounted =
     \<lparr> gameState = initialGameState, objects = [], enemies = [], vfx = [],
       isTriggered = False, lastDetection = 0, timeouts = [], spawned = 0,
       laser_position = Vector3 0 0 0, laser_lookAt = Vector3 0 0 (- 1),
       crosshair_position = Vector3 0 0 0, crosshair_locked = False,
       crosshair_scale = 1 \<rparr>"

definition initThree :: "(nat \<Rightarrow> draw) \<Rightarrow> int \<Rightarrow> world \<Rightarrow> world" where
  "initThree rng now w = fold (\<lambda>i. spawnEnemy rng now) [0..<ENEMY_COUNT] w"

text \<open>
  The browser runs a pending timeout once it is due, the earliest due first and, among
  equals, the earliest set. \<open>fire_timer\<close> runs that one callback if it is due.
\<close>

fun min_due :: "(int \<times> 'a) list \<Rightarrow> nat option" where
  "min_due [] = None"
| "min_due (t # ts) =
     (case min_due ts of
        None \<Rightarrow> Some 0
      | Some k \<Rightarrow> if fst t \<le> fst (ts ! k) then Some 0 else Some (Suc k))"

definition fire_timer :: "(nat \<Rightarrow> draw) \<Rightarrow> int \<Rightarrow> world \<Rightarrow> world" where
  "fire_timer rng now w =
     (case min_due (timeouts w) of
        None \<Rightarrow> w
      | Some k \<Rightarrow>
          if fst (timeouts w ! k) \<le> now
          then run_timeout rng now (snd (timeouts w ! k))
                 (w \<lparr> timeouts := take k (timeouts w) @ drop (Suc k) (timeouts w) \<rparr>)
          else w)"

text \<open>
  The events of a session after \<open>initThree\<close>: a result of the detector, an animation
  frame, a turn of the timer queue. The effect that registers \<open>onResults\<close> with the
  detector has an empty dependency list, so it runs once, after the first render, and the
  handler it registers is the closure of that render for the whole session: the
  \<open>gameState\<close> that \<open>handleShoot\<close> reads in its body is the initial one.
\<close>

datatype event = Detect int string results | Frame int | Timer int

definition step :: "(nat \<Rightarrow> draw) \<Rightarrow> (vec3 \<Rightarrow> vec3 \<Rightarrow> enemy \<Rightarrow> bool) \<Rightarrow> event \<Rightarrow> world \<Rightarrow> world" where
  "step rng intersectObject ev w =
     (case ev of
        Detect now fid results \<Rightarrow>
          fst (onResults initialGameState intersectObject now fid results w)
      | Frame now \<Rightarrow> animate rng now w
      | Timer now \<Rightarrow> fire_timer rng now w)"

definition run :: "(nat \<Rightarrow> draw) \<Rightarrow> (vec3 \<Rightarrow> vec3 \<Rightarrow> enemy \<Rightarrow> bool) \<Rightarrow> event list \<Rightarrow> world \<Rightarrow> world" where
  "run rng intersectObject evs w = fold (step rng intersectObject) evs w"

text \<open>The targets in the collection: all of them, the live ones, the dying ones.\<close>

definition population :: "world \<Rightarrow> nat" where
  "population w = length (enemies w)"

definition live :: "world \<Rightarrow> ref list" where
  "live w = filter (\<lambda>r. \<not> isDying (objects w ! r)) (enemies w)"

definition dying :: "world \<Rightarrow> ref list" where
  "dying w = filter (\<lambda>r. isDying (objects w ! r)) (enemies w)"

section \<open>Sample data\<close>

text \<open>
  A target with a given id, position, dying flag and point value, at rest; a world after
  mounting that holds the given targets in order; and three ray tests: one that every
  mesh passes, one that none passes, one that the mesh of the target with a given id
  passes.
\<close>

definition target :: "string \<Rightarrow> vec3 \<Rightarrow> bool \<Rightarrow> int \<Rightarrow> enemy" where
  "target i p d n =
     \<lparr> eid = i,
       mesh = \<lparr> position = p, rotation_x = 0, rotation_y = 0, mesh_scale = 1 \<rparr>,
       velocity = Vector3 0 0 0, spawnTime = 0, isDying = d, points = n,
       etype = ''normal'' \<rparr>"

definition arena :: "enemy list \<Rightarrow> world" where
  "arena es = unmounted \<lparr> objects := es, enemies := [0..<length es] \<rparr>"

definition ray_hits_all :: "vec3 \<Rightarrow> vec3 \<Rightarrow> enemy \<Rightarrow> bool" where
  "ray_hits_all origin direction e = True"

definition ray_hits_none :: "vec3 \<Rightarrow> vec3 \<Rightarrow> enemy \<Rightarrow> bool" where
  "ray_hits_none origin direction e = False"

definition ray_hits_id :: "string \<Rightarrow> vec3 \<Rightarrow> vec3 \<Rightarrow> enemy \<Rightarrow> bool" where
  "ray_hits_id i origin direction e = (eid e = i)"

definition with_tally :: "int \<Rightarrow> int \<Rightarrow> world \<Rightarrow> world" where
  "with_tally s c w = w \<lparr> gameState := (gameState w) \<lparr> score := s, combo := c \<rparr> \<rparr>"

text \<open>
  A series of detector results, each with its time and the id its floating text would
  get, fed to the handler one after the other: what each call did. \<open>paced\<close> says that
  every result of a series arrives at least the rate limit after the one before, and
  \<open>pinch\<close> is the trigger distance of a result whose first hand has the three landmarks
  the handler reads.
\<close>

fun detections ::
  "gameState \<Rightarrow> (vec3 \<Rightarrow> vec3 \<Rightarrow> enemy \<Rightarrow> bool) \<Rightarrow> (int \<times> string \<times> results) list \<Rightarrow> world \<Rightarrow> tick list"
where
  "detections c io [] w = []"
| "detections c io ((now, fid, res) # ts) w =
     snd (onResults c io now fid res w)
     # detections c io ts (fst (onResults c io now fid res w))"

fun paced :: "int \<Rightarrow> (int \<times> string \<times> results) list \<Rightarrow> bool" where
  "paced before [] = True"
| "paced before ((now, fid, res) # ts) = (DETECTION_FREQ_MS \<le> now - before \<and> paced now ts)"

definition pinch :: "results \<Rightarrow> real option" where
  "pinch res =
     (case multiHandLandmarks res of
        Some (ls # hs) \<Rightarrow>
          (case (landmark ls 4, landmark ls 5, landmark ls 8) of
             (Some thumbTip, Some indexBase, Some indexTip) \<Rightarrow>
               Some (trigger_dist thumbTip indexBase)
           | _ \<Rightarrow> None)
      | _ \<Rightarrow> None)"

definition below :: "results \<Rightarrow> bool" where
  "below res = (case pinch res of Some d \<Rightarrow> d < TRIGGER_THRESHOLD | None \<Rightarrow> False)"

text \<open>
  A hand of 21 landmarks whose thumb tip is \<open>d\<close> to the right of the index base, the
  result that reports it, and the series of distances 0.03, 0.03, 0.08, 0.03 at the pace of
  the rate limit.
\<close>

definition hand :: "real \<Rightarrow> point option list" where
  "hand d =
     [Some (Point 0.5 0.9 0), Some (Point 0.55 0.8 0), Some (Point 0.6 0.7 0),
      Some (Point 0.6 0.6 0), Some (Point (0.5 + d) 0.5 0), Some (Point 0.5 0.5 0),
      Some (Point 0.5 0.47 0), Some (Point 0.5 0.43 0), Some (Point 0.5 0.4 0),
      Some (Point 0.45 0.5 0), Some (Point 0.45 0.55 0), Some (Point 0.45 0.6 0),
      Some (Point 0.45 0.65 0), Some (Point 0.4 0.5 0), Some (Point 0.4 0.55 0),
      Some (Point 0.4 0.6 0), Some (Point 0.4 0.65 0), Some (Point 0.35 0.5 0),
      Some (Point 0.35 0.55 0), Some (Point 0.35 0.6 0), Some (Point 0.35 0.65 0)]"

definition seen :: "real \<Rightarrow> results" where
  "seen d = \<lparr> multiHandLandmarks = Some [hand d] \<rparr>"

definition pinch_series :: "(int \<times> string \<times> results) list" where
  "pinch_series =
     [(1000, ''f1'', seen 0.03), (1033, ''f2'', seen 0.03),
      (1066, ''f3'', seen 0.08), (1099, ''f4'', seen 0.03)]"

text \<open>
  Three more results of the detector: one hand without any landmark, a hand whose thumb
  tip alone is missing, and no hand at all. \<open>tracking\<close> is a world whose hand-detected
  flag is set.
\<close>

definition no_landmarks :: results where
  "no_landmarks = \<lparr> multiHandLandmarks = Some [[]] \<rparr>"

definition no_thumb :: results where
  "no_thumb = \<lparr> multiHandLandmarks = Some [(hand 0.03)[4 := None]] \<rparr>"

definition no_hands :: results where
  "no_hands = \<lparr> multiHandLandmarks = None \<rparr>"

definition tracking :: world where
  "tracking = unmounted \<lparr> gameState := initialGameState \<lparr> handDetected := True \<rparr> \<rparr>"

text \<open>
  A source of random draws whose ids are all different, and a floating text as a miss
  creates it.
\<close>

definition draws :: "nat \<Rightarrow> draw" where
  "draws k =
     \<lparr> d_type = 0.5, d_angle = 0, d_height = 0.5, d_speed = 0.5,
       d_id = replicate (Suc k) (CHR ''n'') \<rparr>"

definition miss_text :: floatingText where
  "miss_text =
     \<lparr> vid = ''m'', ftext = MISS, vpos = Vector3 0 0 (- 17), color = ''#f87171'',
       life = 1.0 \<rparr>"

text \<open>
  A world with one live target worth 100 points, and a world whose first target is
  already dying while the second is live.
\<close>

definition lone :: world where
  "lone = arena [target ''a'' (Vector3 0 0 (- 10)) False 100]"

definition dying_first :: world where
  "dying_first =
     arena [target ''a'' (Vector3 0 0 (- 10)) True 100,
            target ''b'' (Vector3 0 0 (- 20)) False 250]"

text \<open>
  The part of the state that decides the size of the population: the collection, the ids
  and the dying flags of the enemy objects, the pending timeouts, the number of spawns,
  the trigger flag and the time of the last detection.
\<close>

definition view ::
  "world \<Rightarrow> ref list \<times> string list \<times> bool list \<times> (int \<times> timeout) list \<times> nat \<times> bool \<times> int"
where
  "view w =
     (enemies w, map eid (objects w), map isDying (objects w), timeouts w, spawned w,
      isTriggered w, lastDetection w)"

text \<open>
  The state after \<open>initThree\<close>, and a session in which the thumb closes, opens and closes
  again on three consecutive detection ticks, 33 ms apart, while the ray stays on the
  target with id \<open>n\<close>; the timer queue then runs the four timeouts as they fall due.
\<close>

definition mounted :: world where
  "mounted = initThree draws 0 unmounted"

definition double_tap :: "event list" where
  "double_tap =
     [Detect 1000 ''f1'' (seen 0.03), Detect 1033 ''f2'' (seen 0.08),
      Detect 1066 ''f3'' (seen 0.03),
      Timer 1100, Timer 1150, Timer 1166, Timer 1216]"

text \<open>
  A target as the frame leaves it, moved unless it is dying, and whether that puts the
  target at address \<open>r\<close> beyond the bounding radius.
\<close>

definition advanced :: "int \<Rightarrow> enemy \<Rightarrow> enemy" where
  "advanced now e = (if \<not> isDying e then advance now e else e)"

definition strays :: "int \<Rightarrow> world \<Rightarrow> ref \<Rightarrow> bool" where
  "strays now w r = (length_v (position (mesh (advanced now (objects w ! r)))) > 30)"

text \<open>
  A world whose first target is dying and 31 units away and whose second is live and
  near.
\<close>

definition far_dying :: world where
  "far_dying =
     arena [target ''a'' (Vector3 0 0 (- 31)) True 100,
            target ''b'' (Vector3 0 0 (- 20)) False 250]"






text \<open>
  The state that a series of detector results leaves, and a series in which a tick
  without a hand falls between two ticks of a closed thumb.
\<close>

fun detect_all ::
  "gameState \<Rightarrow> (vec3 \<Rightarrow> vec3 \<Rightarrow> enemy \<Rightarrow> bool) \<Rightarrow> (int \<times> string \<times> results) list \<Rightarrow> world \<Rightarrow> world"
where
  "detect_all c io [] w = w"
| "detect_all c io ((now, fid, res) # ts) w =
     detect_all c io ts (fst (onResults c io now fid res w))"

definition interrupted_series :: "(int \<times> string \<times> results) list" where
  "interrupted_series =
     [(1000, ''f1'', seen 0.03), (1033, ''f2'', no_hands), (1066, ''f3'', seen 0.03)]"

section \<open>Properties: the aim resolver\<close>

lemma sqrt_quarter: "sqrt (1 / 4) = 1 / 2"
  by (rule real_sqrt_unique) (simp_all add: power2_eq_square)

lemma lengthSq_nonneg: "0 \<le> vx a * vx a + vy a * vy a + vz a * vz a"
  by (simp add: add_nonneg_nonneg)

lemma length_aim_vector:
  "length_v (aim_vector indexTip indexBase) \<ge> 0.5"
proof -
  have "sqrt (1 / 4) \<le> length_v (aim_vector indexTip indexBase)"
    unfolding length_v_def aim_vector_def by (rule real_sqrt_le_mono) simp
  then show ?thesis by (simp add: sqrt_quarter)
qed

lemma length_normalize:
  assumes n: "length_v a \<noteq> 0"
  shows "length_v (normalize_v a) = 1"
proof -
  let ?l = "length_v a"
  let ?q = "vx a * vx a + vy a * vy a + vz a * vz a"
  have q: "0 \<le> ?q" by (rule lengthSq_nonneg)
  have l: "?l = sqrt ?q" by (simp add: length_v_def)
  have pos: "0 < ?l" using n q l by (metis real_sqrt_ge_zero less_eq_real_def)
  have sq: "?l * ?l = ?q" using q l by simp
  have qpos: "0 < ?q" using sq pos by (metis mult_pos_pos)
  have "length_v (normalize_v a) = sqrt (?q / (?l * ?l))"
    using n by (simp add: normalize_v_def divideScalar_def multiplyScalar_def
        length_v_def[of "Vector3 _ _ _"] field_simps)
  also have "\<dots> = sqrt (?q / ?q)" by (simp only: sq)
  also have "\<dots> = 1" using qpos by simp
  finally show ?thesis .
qed

text \<open>
  C10. The vector that the raw aim direction is normalised from has depth exactly -0.5,
  so its length is at least 0.5 for every pair of landmarks: the normalisation divides by
  that length (the zero-length fallback is never taken), the raw aim direction has length
  one and a strictly negative depth, and when the index tip and the index base coincide
  it is the unit vector pointing straight into the scene.
\<close>

theorem aim_direction_unit:
  "vz (aim_vector indexTip indexBase) = - 0.5
   \<and> length_v (aim_vector indexTip indexBase) \<ge> 0.5
   \<and> normalize_v (aim_vector indexTip indexBase)
       = divideScalar (aim_vector indexTip indexBase) (length_v (aim_vector indexTip indexBase))
   \<and> length_v (normalize_v (aim_vector indexTip indexBase)) = 1
   \<and> vz (normalize_v (aim_vector indexTip indexBase)) < 0
   \<and> normalize_v (aim_vector indexBase indexBase) = Vector3 0 0 (- 1)"
proof -
  let ?v = "aim_vector indexTip indexBase"
  have l: "length_v ?v \<ge> 0.5" by (rule length_aim_vector)
  then have nz: "length_v ?v \<noteq> 0" by simp
  have z: "vz ?v = - 0.5" by (simp add: aim_vector_def)
  have n: "normalize_v ?v = divideScalar ?v (length_v ?v)" using nz by (simp add: normalize_v_def)
  have u: "length_v (normalize_v ?v) = 1" using nz by (rule length_normalize)
  have neg: "vz (normalize_v ?v) < 0"
    using l by (simp add: n divideScalar_def multiplyScalar_def z field_simps)
  have "length_v (aim_vector indexBase indexBase) = 1 / 2"
    unfolding length_v_def aim_vector_def by (simp add: sqrt_quarter)
  then have c: "normalize_v (aim_vector indexBase indexBase) = Vector3 0 0 (- 1)"
    by (simp add: normalize_v_def divideScalar_def multiplyScalar_def aim_vector_def)
  show ?thesis using z l n u neg c by blast
qed

section \<open>Properties: resolving a shot\<close>

lemma findIndex_None: "findIndex p xs = None \<longleftrightarrow> (\<forall>x\<in>set xs. \<not> p x)"
  by (induction xs) auto

lemma findIndex_Some:
  "findIndex p xs = Some i \<Longrightarrow> i < length xs \<and> p (xs ! i) \<and> (\<forall>j<i. \<not> p (xs ! j))"
proof (induction xs arbitrary: i)
  case Nil
  then show ?case by simp
next
  case (Cons a as)
  show ?case
  proof (cases "p a")
    case True
    with Cons.prems show ?thesis by simp
  next
    case False
    with Cons.prems obtain k where k: "findIndex p as = Some k" "i = Suc k" by auto
    from Cons.IH[OF k(1)] False k(2) show ?thesis by (auto simp: less_Suc_eq_0_disj)
  qed
qed

lemma findIndex_first:
  "i < length xs \<Longrightarrow> p (xs ! i) \<Longrightarrow> \<forall>j<i. \<not> p (xs ! j) \<Longrightarrow> findIndex p xs = Some i"
proof (induction xs arbitrary: i)
  case Nil
  then show ?case by simp
next
  case (Cons a as)
  show ?case
  proof (cases i)
    case 0
    with Cons.prems show ?thesis by simp
  next
    case (Suc k)
    with Cons.prems have "\<not> p a" by auto
    moreover have "findIndex p as = Some k"
      using Cons.prems Suc by (intro Cons.IH) auto
    ultimately show ?thesis using Suc by simp
  qed
qed

lemma handleShoot_miss:
  assumes "findIndex (\<lambda>r. io origin direction (objects w ! r)) (enemies w) = None"
  shows "gameState (handleShoot c io now fid direction origin w)
           = (gameState w) \<lparr> hitFlash := Some Miss, combo := 0 \<rparr>"
    and "objects (handleShoot c io now fid direction origin w) = objects w"
    and "enemies (handleShoot c io now fid direction origin w) = enemies w"
  using assms by (simp_all add: handleShoot_def Let_def triggerFlash_def)

lemma handleShoot_hit:
  assumes "findIndex (\<lambda>r. io origin direction (objects w ! r)) (enemies w) = Some i"
    and "enemies w ! i < length (objects w)"
  shows "gameState (handleShoot c io now fid direction origin w)
           = (gameState w) \<lparr> hitFlash := Some Hit,
                score := score (gameState w) + (points (objects w ! (enemies w ! i)) + combo c div 5 * 50),
                combo := combo (gameState w) + 1, lastHitTime := now \<rparr>"
    and "enemies (handleShoot c io now fid direction origin w) = enemies w"
    and "timeouts (handleShoot c io now fid direction origin w)
           = timeouts w @ [(now + 150, FlashReset), (now + 100, RemoveRespawn (enemies w ! i))]"
    and "isDying (objects (handleShoot c io now fid direction origin w) ! (enemies w ! i))"
  using assms by (simp_all add: handleShoot_def Let_def triggerFlash_def)

lemma handleShoot_frame:
  "isTriggered (handleShoot c io now fid direction origin w) = isTriggered w"
  "lastDetection (handleShoot c io now fid direction origin w) = lastDetection w"
  "spawned (handleShoot c io now fid direction origin w) = spawned w"
  "length (vfx (handleShoot c io now fid direction origin w)) = Suc (length (vfx w))"
  "length (objects (handleShoot c io now fid direction origin w)) = length (objects w)"
  "enemies (handleShoot c io now fid direction origin w) = enemies w"
  by (simp_all add: handleShoot_def Let_def triggerFlash_def split: option.splits)

text \<open>
  C9. A shot whose ray intersects no target of the collection is a miss: the combo becomes
  0 whatever it was, the score stays, and the flash is the miss flash. Every shot is
  either a hit or a miss, never both: it is a miss exactly when no target is intersected
  and a hit exactly when one is.
\<close>

theorem miss_resets_combo:
  "((\<forall>r\<in>set (enemies w). \<not> io origin direction (objects w ! r)) \<longrightarrow>
      combo (gameState (handleShoot c io now fid direction origin w)) = 0
      \<and> score (gameState (handleShoot c io now fid direction origin w)) = score (gameState w)
      \<and> hitFlash (gameState (handleShoot c io now fid direction origin w)) = Some Miss)
   \<and> (hitFlash (gameState (handleShoot c io now fid direction origin w)) = Some Miss
        \<longleftrightarrow> \<not> (\<exists>r\<in>set (enemies w). io origin direction (objects w ! r)))
   \<and> (hitFlash (gameState (handleShoot c io now fid direction origin w)) = Some Hit
        \<longleftrightarrow> (\<exists>r\<in>set (enemies w). io origin direction (objects w ! r)))"
proof (cases "findIndex (\<lambda>r. io origin direction (objects w ! r)) (enemies w)")
  case None
  then have no: "\<forall>r\<in>set (enemies w). \<not> io origin direction (objects w ! r)"
    by (simp add: findIndex_None)
  show ?thesis using no None by (simp add: handleShoot_def Let_def triggerFlash_def)
next
  case (Some i)
  from findIndex_Some[OF Some] have "\<exists>r\<in>set (enemies w). io origin direction (objects w ! r)"
    by (metis nth_mem)
  moreover have "hitFlash (gameState (handleShoot c io now fid direction origin w)) = Some Hit"
    using Some by (simp add: handleShoot_def Let_def triggerFlash_def)
  ultimately show ?thesis by auto
qed

theorem miss_resets_combo_witness:
  "combo (gameState (handleShoot initialGameState ray_hits_none 1000 ''f''
            (Vector3 0 0 (- 1)) (Vector3 0 0 (- 2))
            (with_tally 700 3 (arena [target ''a'' (Vector3 0 0 (- 10)) False 100])))) = 0
   \<and> score (gameState (handleShoot initialGameState ray_hits_none 1000 ''f''
            (Vector3 0 0 (- 1)) (Vector3 0 0 (- 2))
            (with_tally 700 3 (arena [target ''a'' (Vector3 0 0 (- 10)) False 100])))) = 700
   \<and> combo (gameState (handleShoot initialGameState ray_hits_none 1000 ''f''
            (Vector3 0 0 (- 1)) (Vector3 0 0 (- 2))
            (with_tally 0 0 (arena [target ''a'' (Vector3 0 0 (- 10)) False 100])))) = 0"
proof -
  let ?es = "[target ''a'' (Vector3 0 0 (- 10)) False 100]"
  have h: "\<forall>r\<in>set (enemies (with_tally s c (arena ?es))).
             \<not> ray_hits_none (Vector3 0 0 (- 2)) (Vector3 0 0 (- 1)) (objects (with_tally s c (arena ?es)) ! r)" for s c
    by (simp add: ray_hits_none_def)
  show ?thesis
    using miss_resets_combo[of "with_tally 700 3 (arena ?es)" ray_hits_none "Vector3 0 0 (- 2)"
        "Vector3 0 0 (- 1)" initialGameState 1000 "''f''"]
      miss_resets_combo[of "with_tally 0 0 (arena ?es)" ray_hits_none "Vector3 0 0 (- 2)"
        "Vector3 0 0 (- 1)" initialGameState 1000 "''f''"] h
    by (simp add: with_tally_def)
qed

section \<open>Properties: the detection tick\<close>

lemma onResults_throttled:
  "now - lastDetection w < DETECTION_FREQ_MS \<Longrightarrow>
   onResults c io now fid results w = (w, Throttled)"
  by (simp add: onResults_def)

lemma onResults_no_hand:
  assumes "DETECTION_FREQ_MS \<le> now - lastDetection w"
    and "multiHandLandmarks results = None \<or> multiHandLandmarks results = Some []"
  shows "onResults c io now fid results w =
           (w \<lparr> lastDetection := now,
                gameState := (gameState w) \<lparr> handDetected := False \<rparr> \<rparr>, NoHand)"
  using assms by (auto simp: onResults_def Let_def)

lemma onResults_tracked:
  assumes "DETECTION_FREQ_MS \<le> now - lastDetection w"
    and "multiHandLandmarks results = Some (ls # hs)"
    and "landmark ls 4 = Some thumbTip" and "landmark ls 5 = Some indexBase"
    and "landmark ls 8 = Some indexTip"
  shows "snd (onResults c io now fid results w)
           = Tracked (trigger_dist thumbTip indexBase < TRIGGER_THRESHOLD \<and> \<not> isTriggered w)"
    and "isTriggered (fst (onResults c io now fid results w))
           = (trigger_dist thumbTip indexBase < TRIGGER_THRESHOLD)"
    and "lastDetection (fst (onResults c io now fid results w)) = now"
  using assms
  by (simp_all add: onResults_def Let_def handleShoot_frame)

lemma onResults_no_shot:
  assumes "snd (onResults c io now fid results w) = Tracked False"
  shows "objects (fst (onResults c io now fid results w)) = objects w"
    and "enemies (fst (onResults c io now fid results w)) = enemies w"
    and "vfx (fst (onResults c io now fid results w)) = vfx w"
    and "timeouts (fst (onResults c io now fid results w)) = timeouts w"
    and "spawned (fst (onResults c io now fid results w)) = spawned w"
    and "gameState (fst (onResults c io now fid results w))
           = (gameState w) \<lparr> handDetected := True \<rparr>"
  using assms
  by (auto simp: onResults_def Let_def split: if_splits option.splits list.splits)

lemma onResults_Tracked_cases:
  assumes "snd (onResults c io now fid results w) = Tracked b"
  obtains ls hs thumbTip indexBase indexTip where
    "DETECTION_FREQ_MS \<le> now - lastDetection w"
    "multiHandLandmarks results = Some (ls # hs)"
    "landmark ls 4 = Some thumbTip" "landmark ls 5 = Some indexBase"
    "landmark ls 8 = Some indexTip"
  using assms
  by (auto simp: onResults_def Let_def split: if_splits option.splits list.splits)

lemma onResults_shot:
  assumes "snd (onResults c io now fid results w) = Tracked True"
  shows "\<exists>direction origin w2.
           fst (onResults c io now fid results w)
             = handleShoot c io now fid direction origin w2
           \<and> objects w2 = objects w \<and> enemies w2 = enemies w \<and> vfx w2 = vfx w
           \<and> timeouts w2 = timeouts w \<and> spawned w2 = spawned w
           \<and> gameState w2 = (gameState w) \<lparr> handDetected := True \<rparr>"
proof -
  from assms obtain ls hs thumbTip indexBase indexTip where f:
    "DETECTION_FREQ_MS \<le> now - lastDetection w"
    "multiHandLandmarks results = Some (ls # hs)"
    "landmark ls 4 = Some thumbTip" "landmark ls 5 = Some indexBase"
    "landmark ls 8 = Some indexTip"
    by (rule onResults_Tracked_cases)
  from onResults_tracked(1)[OF f, of c io fid] assms
  have g: "trigger_dist thumbTip indexBase < TRIGGER_THRESHOLD" "\<not> isTriggered w"
    by simp_all
  show ?thesis
    using f g
    apply (simp add: onResults_def Let_def split del: if_split)
    apply (intro exI conjI)
          apply (rule refl)
         apply simp_all
    done
qed

lemma onResults_raised:
  assumes "snd (onResults c io now fid results w) = Raised e"
  shows "gameState (fst (onResults c io now fid results w))
           = (gameState w) \<lparr> handDetected := True \<rparr>"
    and "objects (fst (onResults c io now fid results w)) = objects w"
    and "enemies (fst (onResults c io now fid results w)) = enemies w"
    and "vfx (fst (onResults c io now fid results w)) = vfx w"
    and "isTriggered (fst (onResults c io now fid results w)) = isTriggered w"
    and "timeouts (fst (onResults c io now fid results w)) = timeouts w"
    and "spawned (fst (onResults c io now fid results w)) = spawned w"
    and "lastDetection (fst (onResults c io now fid results w)) = now"
  using assms
  by (auto simp: onResults_def Let_def split: if_splits option.splits list.splits)

lemma pinch_SomeD:
  assumes "pinch res = Some d"
  obtains ls hs thumbTip indexBase indexTip where
    "multiHandLandmarks res = Some (ls # hs)"
    "landmark ls 4 = Some thumbTip" "landmark ls 5 = Some indexBase"
    "landmark ls 8 = Some indexTip" "d = trigger_dist thumbTip indexBase"
  using assms by (auto simp: pinch_def split: option.splits list.splits)

lemma onResults_pinch:
  assumes "DETECTION_FREQ_MS \<le> now - lastDetection w" and "pinch res = Some d"
  shows "snd (onResults c io now fid res w) = Tracked (d < TRIGGER_THRESHOLD \<and> \<not> isTriggered w)"
    and "isTriggered (fst (onResults c io now fid res w)) = (d < TRIGGER_THRESHOLD)"
    and "lastDetection (fst (onResults c io now fid res w)) = now"
proof -
  from assms(2) obtain ls hs thumbTip indexBase indexTip where f:
    "multiHandLandmarks res = Some (ls # hs)"
    "landmark ls 4 = Some thumbTip" "landmark ls 5 = Some indexBase"
    "landmark ls 8 = Some indexTip" and d: "d = trigger_dist thumbTip indexBase"
    by (rule pinch_SomeD)
  note t = onResults_tracked[OF assms(1) f, of c io fid]
  show "snd (onResults c io now fid res w) = Tracked (d < TRIGGER_THRESHOLD \<and> \<not> isTriggered w)"
    using t(1) d by simp
  show "isTriggered (fst (onResults c io now fid res w)) = (d < TRIGGER_THRESHOLD)"
    using t(2) d by simp
  show "lastDetection (fst (onResults c io now fid res w)) = now"
    using t(3) by simp
qed

lemma pinch_Tracked:
  assumes "snd (onResults c io now fid res w) = Tracked b"
  shows "\<exists>d. pinch res = Some d \<and> DETECTION_FREQ_MS \<le> now - lastDetection w"
proof -
  from assms obtain ls hs thumbTip indexBase indexTip where
    "DETECTION_FREQ_MS \<le> now - lastDetection w"
    "multiHandLandmarks res = Some (ls # hs)"
    "landmark ls 4 = Some thumbTip" "landmark ls 5 = Some indexBase"
    "landmark ls 8 = Some indexTip"
    by (rule onResults_Tracked_cases)
  then show ?thesis by (simp add: pinch_def)
qed

lemma isTriggered_reset:
  assumes "isTriggered w" and "\<not> isTriggered (fst (onResults c io now fid res w))"
  shows "\<exists>d. pinch res = Some d \<and> TRIGGER_THRESHOLD \<le> d"
  using assms
  by (auto simp: onResults_def Let_def pinch_def handleShoot_frame
      split: if_splits option.splits list.splits)

lemma detections_held:
  "paced (lastDetection w) ts \<Longrightarrow> \<forall>t\<in>set ts. below (snd (snd t)) \<Longrightarrow> isTriggered w \<Longrightarrow>
   detections c io ts w = replicate (length ts) (Tracked False)"
proof (induction ts arbitrary: w)
  case Nil
  then show ?case by simp
next
  case (Cons t ts)
  obtain now fid res where t: "t = (now, fid, res)" by (cases t)
  from Cons.prems t have p: "DETECTION_FREQ_MS \<le> now - lastDetection w" "paced now ts"
    and b: "below res" by simp_all
  from b obtain d where d: "pinch res = Some d" "d < TRIGGER_THRESHOLD"
    by (auto simp: below_def split: option.splits)
  let ?w = "fst (onResults c io now fid res w)"
  note r = onResults_pinch[OF p(1) d(1), of c io fid]
  have "detections c io ts ?w = replicate (length ts) (Tracked False)"
    using Cons.prems p(2) r d(2) by (intro Cons.IH) simp_all
  then show ?case using t r(1) Cons.prems(3) by simp
qed

lemma detections_run:
  assumes "paced (lastDetection w) ts" and "\<forall>t\<in>set ts. below (snd (snd t))"
    and "ts \<noteq> []" and "\<not> isTriggered w"
  shows "detections c io ts w = Tracked True # replicate (length ts - 1) (Tracked False)"
proof -
  from assms(3) obtain t ts' where ts: "ts = t # ts'" by (cases ts) auto
  obtain now fid res where t: "t = (now, fid, res)" by (cases t)
  from assms ts t have p: "DETECTION_FREQ_MS \<le> now - lastDetection w" "paced now ts'"
    and b: "below res" "\<forall>t\<in>set ts'. below (snd (snd t))" by simp_all
  from b obtain d where d: "pinch res = Some d" "d < TRIGGER_THRESHOLD"
    by (auto simp: below_def split: option.splits)
  let ?w = "fst (onResults c io now fid res w)"
  note r = onResults_pinch[OF p(1) d(1), of c io fid]
  have "detections c io ts' ?w = replicate (length ts') (Tracked False)"
    using p(2) b(2) r d(2) by (intro detections_held) simp_all
  then show ?thesis using ts t r(1) d(2) assms(4) by simp
qed

lemma trigger_dist_right: "trigger_dist (Point (bx + d) y z) (Point bx y z') = \<bar>d\<bar>"
  by (simp add: trigger_dist_def)

lemma pinch_seen: "pinch (seen d) = Some \<bar>d\<bar>"
  by (simp add: pinch_def seen_def hand_def landmark_def trigger_dist_right)

lemma pinch_series_detections:
  "detections c io pinch_series unmounted
     = [Tracked True, Tracked False, Tracked False, Tracked True]"
proof -
  let ?w1 = "fst (onResults c io 1000 ''f1'' (seen 0.03) unmounted)"
  let ?w2 = "fst (onResults c io 1033 ''f2'' (seen 0.03) ?w1)"
  let ?w3 = "fst (onResults c io 1066 ''f3'' (seen 0.08) ?w2)"
  have p0: "DETECTION_FREQ_MS \<le> 1000 - lastDetection unmounted"
    and t0: "\<not> isTriggered unmounted"
    by (simp_all add: DETECTION_FREQ_MS_def unmounted_def)
  note r1 = onResults_pinch[OF p0 pinch_seen, of c io "''f1''"]
  have p1: "DETECTION_FREQ_MS \<le> 1033 - lastDetection ?w1"
    using r1(3) by (simp add: DETECTION_FREQ_MS_def)
  note r2 = onResults_pinch[OF p1 pinch_seen, of c io "''f2''"]
  have p2: "DETECTION_FREQ_MS \<le> 1066 - lastDetection ?w2"
    using r2(3) by (simp add: DETECTION_FREQ_MS_def)
  note r3 = onResults_pinch[OF p2 pinch_seen, of c io "''f3''"]
  have p3: "DETECTION_FREQ_MS \<le> 1099 - lastDetection ?w3"
    using r3(3) by (simp add: DETECTION_FREQ_MS_def)
  note r4 = onResults_pinch[OF p3 pinch_seen, of c io "''f4''"]
  show ?thesis
    using t0 r1(1,2) r2(1,2) r3(1,2) r4(1)
    by (simp add: pinch_series_def TRIGGER_THRESHOLD_def)
qed

lemma onResults_Raised_iff:
  "snd (onResults c io now fid res w) = Raised e \<longleftrightarrow>
     DETECTION_FREQ_MS \<le> now - lastDetection w
     \<and> (\<exists>ls hs. multiHandLandmarks res = Some (ls # hs)
           \<and> (landmark ls 4 = None \<or> landmark ls 5 = None \<or> landmark ls 8 = None))"
  by (cases e) (auto simp: onResults_def Let_def split: if_splits option.splits list.splits)

lemma onResults_raised_early:
  assumes "snd (onResults c io now fid res w) = Raised e"
    and "multiHandLandmarks res = Some (ls # hs)"
    and "landmark ls 5 = None \<or> landmark ls 8 = None"
  shows "fst (onResults c io now fid res w)
           = w \<lparr> lastDetection := now, gameState := (gameState w) \<lparr> handDetected := True \<rparr> \<rparr>"
proof -
  from assms(1) have p: "\<not> now - lastDetection w < DETECTION_FREQ_MS"
    by (simp add: onResults_Raised_iff)
  show ?thesis
  proof (cases "landmark ls 5")
    case None
    then show ?thesis using p assms(2)
      by (simp add: onResults_def Let_def)
  next
    case (Some indexBase)
    with assms(3) have "landmark ls 8 = None" by simp
    then show ?thesis using p assms(2) Some
      by (simp add: onResults_def Let_def)
  qed
qed

lemma handleShoot_handDetected:
  "handDetected (gameState (handleShoot c io now fid direction origin w))
     = handDetected (gameState w)"
  by (simp add: handleShoot_def Let_def triggerFlash_def split: option.splits)

lemma onResults_Throttled_same:
  assumes "snd (onResults c io now fid res w) = Throttled"
  shows "fst (onResults c io now fid res w) = w"
proof (cases "now - lastDetection w < DETECTION_FREQ_MS")
  case True
  then show ?thesis by (simp add: onResults_throttled)
next
  case False
  then have "snd (onResults c io now fid res w) \<noteq> Throttled"
    by (simp add: onResults_def Let_def split: option.split list.split)
  with assms show ?thesis by simp
qed

lemma handDetected_cleared:
  assumes h: "handDetected (gameState w)"
    and n: "\<not> handDetected (gameState (fst (onResults c io now fid res w)))"
  shows "snd (onResults c io now fid res w) = NoHand"
proof (cases "snd (onResults c io now fid res w)")
  case Throttled
  from onResults_Throttled_same[OF this] h n show ?thesis by simp
next
  case NoHand
  then show ?thesis .
next
  case (Raised e)
  from onResults_raised(1)[OF this] n show ?thesis by simp
next
  case (Tracked b)
  show ?thesis
  proof (cases b)
    case True
    with Tracked have "snd (onResults c io now fid res w) = Tracked True" by simp
    from onResults_shot[OF this] obtain direction origin w2 where
      "fst (onResults c io now fid res w) = handleShoot c io now fid direction origin w2"
      "gameState w2 = (gameState w) \<lparr> handDetected := True \<rparr>" by blast
    with n show ?thesis by (simp add: handleShoot_handDetected)
  next
    case False
    with Tracked have "snd (onResults c io now fid res w) = Tracked False" by simp
    from onResults_no_shot(6)[OF this] n show ?thesis by simp
  qed
qed

text \<open>
  C8, as the code has it. When the handler's \<open>try\<close> block throws on a detection tick, the
  error is caught and the score, the combo and every other field of the game state but
  the hand-detected flag are as before the tick, and so are the targets, the floating
  texts, the trigger flag and the pending timeouts. The hand-detected flag is true after
  such a tick (the handler sets it, for a result with a hand, before it reads a
  landmark), and the time of the last detection is the time of the tick. When the missing
  landmark is the index base or the index tip, the laser and the crosshair are as before
  too. The hand-detected flag goes from true to false only on a tick that reports no
  hand.
\<close>

theorem exception_keeps_game:
  "(snd (onResults c io now fid res w) = Raised e \<longrightarrow>
      gameState (fst (onResults c io now fid res w)) = (gameState w) \<lparr> handDetected := True \<rparr>
      \<and> objects (fst (onResults c io now fid res w)) = objects w
      \<and> enemies (fst (onResults c io now fid res w)) = enemies w
      \<and> vfx (fst (onResults c io now fid res w)) = vfx w
      \<and> isTriggered (fst (onResults c io now fid res w)) = isTriggered w
      \<and> timeouts (fst (onResults c io now fid res w)) = timeouts w
      \<and> spawned (fst (onResults c io now fid res w)) = spawned w
      \<and> lastDetection (fst (onResults c io now fid res w)) = now)
   \<and> (snd (onResults c io now fid res w) = Raised e \<longrightarrow>
        multiHandLandmarks res = Some (ls # hs) \<longrightarrow>
        landmark ls 5 = None \<or> landmark ls 8 = None \<longrightarrow>
        fst (onResults c io now fid res w)
          = w \<lparr> lastDetection := now,
                gameState := (gameState w) \<lparr> handDetected := True \<rparr> \<rparr>)
   \<and> (handDetected (gameState w) \<longrightarrow>
        \<not> handDetected (gameState (fst (onResults c io now fid res w))) \<longrightarrow>
        snd (onResults c io now fid res w) = NoHand)"
  using onResults_raised[of c io now fid res w e]
    onResults_raised_early[of c io now fid res w e ls hs]
    handDetected_cleared[of w c io now fid res]
  by blast

theorem exception_keeps_game_witness:
  "snd (onResults initialGameState ray_hits_none 1000 ''f'' no_landmarks unmounted)
     = Raised TypeError
   \<and> fst (onResults initialGameState ray_hits_none 1000 ''f'' no_landmarks unmounted)
       = unmounted \<lparr> lastDetection := 1000,
                     gameState := (gameState unmounted) \<lparr> handDetected := True \<rparr> \<rparr>
   \<and> handDetected (gameState tracking)
   \<and> \<not> handDetected (gameState
         (fst (onResults initialGameState ray_hits_none 1000 ''f'' no_hands tracking)))
   \<and> snd (onResults initialGameState ray_hits_none 1000 ''f'' no_hands tracking) = NoHand"
proof -
  have r: "snd (onResults initialGameState ray_hits_none 1000 ''f'' no_landmarks unmounted)
             = Raised TypeError"
    by (simp add: onResults_def no_landmarks_def unmounted_def DETECTION_FREQ_MS_def
        landmark_def Let_def)
  have m: "multiHandLandmarks no_landmarks = Some ([] # [])" "landmark [] 5 = None"
    by (simp_all add: no_landmarks_def landmark_def)
  have t: "handDetected (gameState tracking)"
    by (simp add: tracking_def)
  have n: "\<not> handDetected (gameState
         (fst (onResults initialGameState ray_hits_none 1000 ''f'' no_hands tracking)))"
    by (simp add: onResults_def no_hands_def tracking_def unmounted_def
        DETECTION_FREQ_MS_def Let_def)
  show ?thesis
    using exception_keeps_game[of initialGameState ray_hits_none 1000 "''f''" no_landmarks
        unmounted TypeError "[]" "[]"]
      exception_keeps_game[of initialGameState ray_hits_none 1000 "''f''" no_hands
        tracking TypeError "[]" "[]"] r m t n
    by simp
qed

theorem exception_changes_state:
  "snd (onResults initialGameState ray_hits_none 1000 ''f'' no_landmarks unmounted)
     = Raised TypeError
   \<and> fst (onResults initialGameState ray_hits_none 1000 ''f'' no_landmarks unmounted)
       \<noteq> unmounted
   \<and> \<not> handDetected (gameState unmounted)
   \<and> handDetected (gameState
        (fst (onResults initialGameState ray_hits_none 1000 ''f'' no_landmarks unmounted)))
   \<and> snd (onResults initialGameState ray_hits_none 1000 ''f'' no_thumb unmounted)
       = Raised TypeError
   \<and> laser_position (fst (onResults initialGameState ray_hits_none 1000 ''f'' no_thumb unmounted))
       \<noteq> laser_position unmounted"
proof -
  have a: "onResults initialGameState ray_hits_none 1000 ''f'' no_landmarks unmounted
             = (unmounted \<lparr> lastDetection := 1000,
                   gameState := initialGameState \<lparr> handDetected := True \<rparr> \<rparr>, Raised TypeError)"
    by (simp add: onResults_def no_landmarks_def unmounted_def DETECTION_FREQ_MS_def
        landmark_def Let_def initialGameState_def)
  have b: "handDetected (gameState
        (fst (onResults initialGameState ray_hits_none 1000 ''f'' no_landmarks unmounted)))"
    by (simp add: a)
  have c: "\<not> handDetected (gameState unmounted)"
    by (simp add: unmounted_def initialGameState_def)
  have d: "fst (onResults initialGameState ray_hits_none 1000 ''f'' no_landmarks unmounted)
       \<noteq> unmounted"
    using b c by auto
  have e: "snd (onResults initialGameState ray_hits_none 1000 ''f'' no_thumb unmounted)
       = Raised TypeError"
    by (simp add: onResults_Raised_iff no_thumb_def hand_def landmark_def unmounted_def
        DETECTION_FREQ_MS_def)
  have f: "laser_position (fst (onResults initialGameState ray_hits_none 1000 ''f'' no_thumb unmounted))
       = Vector3 0 0 (- 2)"
    by (simp add: onResults_def no_thumb_def hand_def landmark_def unmounted_def
        DETECTION_FREQ_MS_def Let_def gun_origin_def)
  have g: "laser_position unmounted = Vector3 0 0 0" by (simp add: unmounted_def)
  show ?thesis using a b c d e f g by simp
qed

lemma handleShoot_vfx:
  "map vid (vfx (handleShoot c io now fid direction origin w)) = map vid (vfx w) @ [fid]"
  by (simp add: handleShoot_def Let_def triggerFlash_def split: option.splits)

lemma onResults_NoHand_same:
  assumes "snd (onResults c io now fid res w) = NoHand"
  shows "fst (onResults c io now fid res w)
           = w \<lparr> lastDetection := now,
                 gameState := (gameState w) \<lparr> handDetected := False \<rparr> \<rparr>"
proof (cases "now - lastDetection w < DETECTION_FREQ_MS")
  case True
  then have "snd (onResults c io now fid res w) = Throttled" by (simp add: onResults_throttled)
  with assms show ?thesis by simp
next
  case False
  then have p: "DETECTION_FREQ_MS \<le> now - lastDetection w" by simp
  show ?thesis
  proof (cases "multiHandLandmarks res = None \<or> multiHandLandmarks res = Some []")
    case True
    from onResults_no_hand[OF p True, of c io fid] show ?thesis by simp
  next
    case False
    then obtain ls hs where m: "multiHandLandmarks res = Some (ls # hs)"
      by (cases "multiHandLandmarks res") (auto simp: neq_Nil_conv)
    have "snd (onResults c io now fid res w) \<noteq> NoHand"
      using p m by (simp add: onResults_def Let_def split: option.split)
    with assms show ?thesis by simp
  qed
qed

lemma onResults_quiet:
  assumes "snd (onResults c io now fid res w) \<noteq> Tracked True"
  shows "vfx (fst (onResults c io now fid res w)) = vfx w"
    and "timeouts (fst (onResults c io now fid res w)) = timeouts w"
    and "objects (fst (onResults c io now fid res w)) = objects w"
    and "score (gameState (fst (onResults c io now fid res w))) = score (gameState w)"
    and "combo (gameState (fst (onResults c io now fid res w))) = combo (gameState w)"
proof -
  let ?r = "onResults c io now fid res w"
  have "vfx (fst ?r) = vfx w \<and> timeouts (fst ?r) = timeouts w \<and> objects (fst ?r) = objects w
        \<and> score (gameState (fst ?r)) = score (gameState w)
        \<and> combo (gameState (fst ?r)) = combo (gameState w)"
  proof (cases "snd ?r")
    case Throttled
    from onResults_Throttled_same[OF this] show ?thesis by simp
  next
    case NoHand
    from onResults_NoHand_same[OF this] show ?thesis by simp
  next
    case (Raised e)
    from onResults_raised[OF this] show ?thesis by simp
  next
    case (Tracked b)
    with assms have "snd ?r = Tracked False" by simp
    from onResults_no_shot[OF this] show ?thesis by simp
  qed
  then show "vfx (fst ?r) = vfx w" "timeouts (fst ?r) = timeouts w" "objects (fst ?r) = objects w"
    "score (gameState (fst ?r)) = score (gameState w)"
    "combo (gameState (fst ?r)) = combo (gameState w)"
    by simp_all
qed

lemma onResults_flag_kept:
  assumes "snd (onResults c io now fid res w) = Throttled
           \<or> snd (onResults c io now fid res w) = NoHand
           \<or> snd (onResults c io now fid res w) = Raised e"
  shows "isTriggered (fst (onResults c io now fid res w)) = isTriggered w"
  using assms onResults_Throttled_same[of c io now fid res w]
    onResults_NoHand_same[of c io now fid res w]
    onResults_raised(5)[of c io now fid res w e]
  by auto

lemma onResults_shot_vfx:
  assumes "snd (onResults c io now fid res w) = Tracked True"
  shows "map vid (vfx (fst (onResults c io now fid res w))) = map vid (vfx w) @ [fid]"
proof -
  from onResults_shot[OF assms] obtain direction origin w2 where
    "fst (onResults c io now fid res w) = handleShoot c io now fid direction origin w2"
    "vfx w2 = vfx w" by blast
  then show ?thesis by (simp add: handleShoot_vfx)
qed

lemma detect_all_held:
  "paced (lastDetection w) ts \<Longrightarrow> \<forall>t\<in>set ts. below (snd (snd t)) \<Longrightarrow> isTriggered w \<Longrightarrow>
   vfx (detect_all c io ts w) = vfx w"
proof (induction ts arbitrary: w)
  case Nil
  then show ?case by simp
next
  case (Cons t ts)
  obtain now fid res where t: "t = (now, fid, res)" by (cases t)
  from Cons.prems t have p: "DETECTION_FREQ_MS \<le> now - lastDetection w" "paced now ts"
    and b: "below res" by simp_all
  from b obtain d where d: "pinch res = Some d" "d < TRIGGER_THRESHOLD"
    by (auto simp: below_def split: option.splits)
  let ?w = "fst (onResults c io now fid res w)"
  note r = onResults_pinch[OF p(1) d(1), of c io fid]
  have q: "snd (onResults c io now fid res w) \<noteq> Tracked True"
    using r(1) Cons.prems(3) by simp
  have "vfx (detect_all c io ts ?w) = vfx ?w"
    using Cons.prems p(2) r d(2) by (intro Cons.IH) simp_all
  then show ?case using t onResults_quiet(1)[OF q] by simp
qed

lemma detect_all_run:
  assumes "paced (lastDetection w) ((now, fid, res) # ts)"
    and "\<forall>t\<in>set ((now, fid, res) # ts). below (snd (snd t))"
    and "\<not> isTriggered w"
  shows "map vid (vfx (detect_all c io ((now, fid, res) # ts) w)) = map vid (vfx w) @ [fid]"
proof -
  from assms have p: "DETECTION_FREQ_MS \<le> now - lastDetection w" "paced now ts"
    and b: "below res" "\<forall>t\<in>set ts. below (snd (snd t))" by simp_all
  from b obtain d where d: "pinch res = Some d" "d < TRIGGER_THRESHOLD"
    by (auto simp: below_def split: option.splits)
  let ?w = "fst (onResults c io now fid res w)"
  note r = onResults_pinch[OF p(1) d(1), of c io fid]
  have s: "snd (onResults c io now fid res w) = Tracked True"
    using r(1) d(2) assms(3) by simp
  have "vfx (detect_all c io ts ?w) = vfx ?w"
    using p(2) b(2) r d(2) by (intro detect_all_held) simp_all
  then show ?thesis using onResults_shot_vfx[OF s] by simp
qed

lemma pinch_series_shots:
  "map vid (vfx (detect_all c io pinch_series unmounted)) = [''f1'', ''f4'']"
proof -
  let ?w1 = "fst (onResults c io 1000 ''f1'' (seen 0.03) unmounted)"
  let ?w2 = "fst (onResults c io 1033 ''f2'' (seen 0.03) ?w1)"
  let ?w3 = "fst (onResults c io 1066 ''f3'' (seen 0.08) ?w2)"
  let ?w4 = "fst (onResults c io 1099 ''f4'' (seen 0.03) ?w3)"
  have p0: "DETECTION_FREQ_MS \<le> 1000 - lastDetection unmounted"
    and t0: "\<not> isTriggered unmounted" and v0: "vfx unmounted = []"
    by (simp_all add: DETECTION_FREQ_MS_def unmounted_def)
  note r1 = onResults_pinch[OF p0 pinch_seen, of c io "''f1''"]
  have p1: "DETECTION_FREQ_MS \<le> 1033 - lastDetection ?w1"
    using r1(3) by (simp add: DETECTION_FREQ_MS_def)
  note r2 = onResults_pinch[OF p1 pinch_seen, of c io "''f2''"]
  have p2: "DETECTION_FREQ_MS \<le> 1066 - lastDetection ?w2"
    using r2(3) by (simp add: DETECTION_FREQ_MS_def)
  note r3 = onResults_pinch[OF p2 pinch_seen, of c io "''f3''"]
  have p3: "DETECTION_FREQ_MS \<le> 1099 - lastDetection ?w3"
    using r3(3) by (simp add: DETECTION_FREQ_MS_def)
  note r4 = onResults_pinch[OF p3 pinch_seen, of c io "''f4''"]
  have s1: "snd (onResults c io 1000 ''f1'' (seen 0.03) unmounted) = Tracked True"
    using r1(1) t0 by (simp add: TRIGGER_THRESHOLD_def)
  have s2: "snd (onResults c io 1033 ''f2'' (seen 0.03) ?w1) \<noteq> Tracked True"
    using r2(1) r1(2) by (simp add: TRIGGER_THRESHOLD_def)
  have s3: "snd (onResults c io 1066 ''f3'' (seen 0.08) ?w2) \<noteq> Tracked True"
    using r3(1) by (simp add: TRIGGER_THRESHOLD_def)
  have s4: "snd (onResults c io 1099 ''f4'' (seen 0.03) ?w3) = Tracked True"
    using r4(1) r3(2) by (simp add: TRIGGER_THRESHOLD_def)
  have "map vid (vfx ?w4) = [''f1'', ''f4'']"
    using onResults_shot_vfx[OF s1] onResults_quiet(1)[OF s2] onResults_quiet(1)[OF s3]
      onResults_shot_vfx[OF s4] v0
    by simp
  then show ?thesis by (simp add: pinch_series_def)
qed

text \<open>
  C3, as the code has it. The trigger is edge-triggered. On a detection tick that tracks
  a hand with trigger distance \<open>d\<close>, the handler shoots exactly when \<open>d\<close> is strictly below
  the threshold and the flag is false, and afterwards the flag is true exactly when \<open>d\<close>
  is below the threshold. A tick that shoots is a call of \<open>handleShoot\<close>: it finds the flag
  false, leaves it true and adds the floating text of the shot; a tick that does not
  shoot leaves the floating texts, the score, the combo, the targets and the pending
  timeouts as they are. A true flag becomes false only on a tick whose distance is at or
  above the threshold, so two shots are always separated by such a tick; a tick at the
  rate limit, without a hand or that throws leaves the flag as it is. A run of
  consecutive ticks below the threshold that starts with the flag false shoots on its
  first tick and on no other (exactly once); a run that starts with the flag true never
  shoots. The distances 0.03, 0.03, 0.08, 0.03 with threshold 0.06 shoot on the first and
  the fourth tick.
\<close>

theorem trigger_edge:
  "(DETECTION_FREQ_MS \<le> now - lastDetection w \<longrightarrow> pinch res = Some d \<longrightarrow>
      (snd (onResults c io now fid res w) = Tracked True)
        = (d < TRIGGER_THRESHOLD \<and> \<not> isTriggered w)
      \<and> isTriggered (fst (onResults c io now fid res w)) = (d < TRIGGER_THRESHOLD))
   \<and> (snd (onResults c io now fid res w) = Tracked True \<longrightarrow>
        \<not> isTriggered w \<and> isTriggered (fst (onResults c io now fid res w))
        \<and> (\<exists>direction origin w2.
              fst (onResults c io now fid res w)
                = handleShoot c io now fid direction origin w2
              \<and> vfx w2 = vfx w \<and> objects w2 = objects w \<and> enemies w2 = enemies w
              \<and> timeouts w2 = timeouts w)
        \<and> map vid (vfx (fst (onResults c io now fid res w))) = map vid (vfx w) @ [fid])
   \<and> (snd (onResults c io now fid res w) \<noteq> Tracked True \<longrightarrow>
        vfx (fst (onResults c io now fid res w)) = vfx w
        \<and> timeouts (fst (onResults c io now fid res w)) = timeouts w
        \<and> objects (fst (onResults c io now fid res w)) = objects w
        \<and> score (gameState (fst (onResults c io now fid res w))) = score (gameState w)
        \<and> combo (gameState (fst (onResults c io now fid res w))) = combo (gameState w))
   \<and> (isTriggered w \<longrightarrow> \<not> isTriggered (fst (onResults c io now fid res w)) \<longrightarrow>
        (\<exists>d'. pinch res = Some d' \<and> TRIGGER_THRESHOLD \<le> d'))
   \<and> (snd (onResults c io now fid res w) = Throttled
          \<or> snd (onResults c io now fid res w) = NoHand
          \<or> snd (onResults c io now fid res w) = Raised e \<longrightarrow>
        isTriggered (fst (onResults c io now fid res w)) = isTriggered w)
   \<and> (paced (lastDetection w) ts \<longrightarrow> (\<forall>t\<in>set ts. below (snd (snd t))) \<longrightarrow> ts \<noteq> [] \<longrightarrow>
        \<not> isTriggered w \<longrightarrow>
        detections c io ts w = Tracked True # replicate (length ts - 1) (Tracked False)
        \<and> count_list (detections c io ts w) (Tracked True) = 1
        \<and> map vid (vfx (detect_all c io ts w)) = map vid (vfx w) @ [fst (snd (hd ts))])
   \<and> (paced (lastDetection w) ts \<longrightarrow> (\<forall>t\<in>set ts. below (snd (snd t))) \<longrightarrow>
        isTriggered w \<longrightarrow>
        detections c io ts w = replicate (length ts) (Tracked False)
        \<and> vfx (detect_all c io ts w) = vfx w)
   \<and> map (\<lambda>t. pinch (snd (snd t))) pinch_series = [Some 0.03, Some 0.03, Some 0.08, Some 0.03]
   \<and> detections c io pinch_series unmounted
        = [Tracked True, Tracked False, Tracked False, Tracked True]
   \<and> map vid (vfx (detect_all c io pinch_series unmounted)) = [''f1'', ''f4'']"
proof -
  let ?r = "onResults c io now fid res w"
  have a: "DETECTION_FREQ_MS \<le> now - lastDetection w \<longrightarrow> pinch res = Some d \<longrightarrow>
      (snd ?r = Tracked True) = (d < TRIGGER_THRESHOLD \<and> \<not> isTriggered w)
      \<and> isTriggered (fst ?r) = (d < TRIGGER_THRESHOLD)"
    by (simp add: onResults_pinch)
  have b: "snd ?r = Tracked True \<longrightarrow>
        \<not> isTriggered w \<and> isTriggered (fst ?r)
        \<and> (\<exists>direction origin w2.
              fst ?r = handleShoot c io now fid direction origin w2
              \<and> vfx w2 = vfx w \<and> objects w2 = objects w \<and> enemies w2 = enemies w
              \<and> timeouts w2 = timeouts w)
        \<and> map vid (vfx (fst ?r)) = map vid (vfx w) @ [fid]"
  proof
    assume s: "snd ?r = Tracked True"
    from pinch_Tracked[OF s] obtain d' where
      "pinch res = Some d'" "DETECTION_FREQ_MS \<le> now - lastDetection w" by blast
    from onResults_pinch(1,2)[OF this(2) this(1), of c io fid] s
    have f: "\<not> isTriggered w \<and> isTriggered (fst ?r)" by simp
    from onResults_shot[OF s] have g: "\<exists>direction origin w2.
              fst ?r = handleShoot c io now fid direction origin w2
              \<and> vfx w2 = vfx w \<and> objects w2 = objects w \<and> enemies w2 = enemies w
              \<and> timeouts w2 = timeouts w" by blast
    from f g onResults_shot_vfx[OF s]
    show "\<not> isTriggered w \<and> isTriggered (fst ?r)
        \<and> (\<exists>direction origin w2.
              fst ?r = handleShoot c io now fid direction origin w2
              \<and> vfx w2 = vfx w \<and> objects w2 = objects w \<and> enemies w2 = enemies w
              \<and> timeouts w2 = timeouts w)
        \<and> map vid (vfx (fst ?r)) = map vid (vfx w) @ [fid]" by blast
  qed
  have q: "snd ?r \<noteq> Tracked True \<longrightarrow>
        vfx (fst ?r) = vfx w \<and> timeouts (fst ?r) = timeouts w \<and> objects (fst ?r) = objects w
        \<and> score (gameState (fst ?r)) = score (gameState w)
        \<and> combo (gameState (fst ?r)) = combo (gameState w)"
    using onResults_quiet[of c io now fid res w] by blast
  have k: "isTriggered w \<longrightarrow> \<not> isTriggered (fst ?r) \<longrightarrow>
        (\<exists>d'. pinch res = Some d' \<and> TRIGGER_THRESHOLD \<le> d')"
    using isTriggered_reset by blast
  have m: "snd ?r = Throttled \<or> snd ?r = NoHand \<or> snd ?r = Raised e \<longrightarrow>
        isTriggered (fst ?r) = isTriggered w"
    using onResults_flag_kept[of c io now fid res w e] by blast
  have cnt: "count_list (Tracked True # replicate n (Tracked False)) (Tracked True) = 1" for n
    by (induction n) simp_all
  have d: "paced (lastDetection w) ts \<longrightarrow> (\<forall>t\<in>set ts. below (snd (snd t))) \<longrightarrow> ts \<noteq> [] \<longrightarrow>
        \<not> isTriggered w \<longrightarrow>
        detections c io ts w = Tracked True # replicate (length ts - 1) (Tracked False)
        \<and> count_list (detections c io ts w) (Tracked True) = 1
        \<and> map vid (vfx (detect_all c io ts w)) = map vid (vfx w) @ [fst (snd (hd ts))]"
  proof (intro impI)
    assume h: "paced (lastDetection w) ts" "\<forall>t\<in>set ts. below (snd (snd t))" "ts \<noteq> []"
      "\<not> isTriggered w"
    from h(3) obtain t ts' where ts: "ts = t # ts'" by (cases ts) auto
    obtain n f r where t: "t = (n, f, r)" by (cases t)
    from detections_run[OF h] cnt
    have "detections c io ts w = Tracked True # replicate (length ts - 1) (Tracked False)"
      "count_list (detections c io ts w) (Tracked True) = 1" by simp_all
    moreover from detect_all_run[of w n f r ts' c io] h ts t
    have "map vid (vfx (detect_all c io ts w)) = map vid (vfx w) @ [fst (snd (hd ts))]"
      by simp
    ultimately show "detections c io ts w = Tracked True # replicate (length ts - 1) (Tracked False)
        \<and> count_list (detections c io ts w) (Tracked True) = 1
        \<and> map vid (vfx (detect_all c io ts w)) = map vid (vfx w) @ [fst (snd (hd ts))]"
      by blast
  qed
  have e: "paced (lastDetection w) ts \<longrightarrow> (\<forall>t\<in>set ts. below (snd (snd t))) \<longrightarrow>
        isTriggered w \<longrightarrow>
        detections c io ts w = replicate (length ts) (Tracked False)
        \<and> vfx (detect_all c io ts w) = vfx w"
    using detections_held[of w ts c io] detect_all_held[of w ts c io] by simp
  have f: "map (\<lambda>t. pinch (snd (snd t))) pinch_series
             = [Some 0.03, Some 0.03, Some 0.08, Some 0.03]"
    by (simp add: pinch_series_def pinch_seen)
  show ?thesis using a b q k m d e f pinch_series_detections pinch_series_shots by blast
qed

theorem trigger_edge_witness:
  "paced (lastDetection unmounted)
     [(1000, ''f1'', seen 0.03), (1033, ''f2'', seen 0.03), (1066, ''f3'', seen 0.01)]
   \<and> list_all (\<lambda>t. below (snd (snd t)))
       [(1000, ''f1'', seen 0.03), (1033, ''f2'', seen 0.03), (1066, ''f3'', seen 0.01)]
   \<and> \<not> isTriggered unmounted
   \<and> detections initialGameState ray_hits_none
        [(1000, ''f1'', seen 0.03), (1033, ''f2'', seen 0.03), (1066, ''f3'', seen 0.01)] unmounted
       = [Tracked True, Tracked False, Tracked False]
   \<and> count_list (detections initialGameState ray_hits_none
        [(1000, ''f1'', seen 0.03), (1033, ''f2'', seen 0.03), (1066, ''f3'', seen 0.01)] unmounted)
        (Tracked True) = 1
   \<and> map vid (vfx (detect_all initialGameState ray_hits_none
        [(1000, ''f1'', seen 0.03), (1033, ''f2'', seen 0.03), (1066, ''f3'', seen 0.01)] unmounted))
       = [''f1'']"
proof -
  let ?ts = "[(1000::int, ''f1'', seen 0.03), (1033, ''f2'', seen 0.03), (1066, ''f3'', seen 0.01)]"
  have p: "paced (lastDetection unmounted) ?ts"
    by (simp add: DETECTION_FREQ_MS_def unmounted_def)
  have b: "\<forall>t\<in>set ?ts. below (snd (snd t))"
    by (simp add: below_def pinch_seen TRIGGER_THRESHOLD_def)
  have t: "\<not> isTriggered unmounted" "vfx unmounted = []" by (simp_all add: unmounted_def)
  show ?thesis
    using trigger_edge[of 0 unmounted "seen 0" 0 initialGameState ray_hits_none "''f''"
        TypeError ?ts] p b t
    by simp
qed

text \<open>
  The claim as written fails for a run that begins with the flag still set. The thumb
  closes on one tick, the next tick reports no hand, and on the third the thumb is
  closed again: the third tick is a run of one tick below the threshold, right after a
  tick that is not below it, and it does not shoot.
\<close>

theorem interrupted_pinch_silent:
  "map (\<lambda>t. pinch (snd (snd t))) interrupted_series = [Some 0.03, None, Some 0.03]
   \<and> paced (lastDetection unmounted) interrupted_series
   \<and> detections initialGameState ray_hits_none interrupted_series unmounted
       = [Tracked True, NoHand, Tracked False]
   \<and> map vid (vfx (detect_all initialGameState ray_hits_none interrupted_series unmounted))
       = [''f1'']"
proof -
  let ?c = initialGameState and ?io = ray_hits_none
  let ?w1 = "fst (onResults ?c ?io 1000 ''f1'' (seen 0.03) unmounted)"
  let ?w2 = "fst (onResults ?c ?io 1033 ''f2'' no_hands ?w1)"
  let ?w3 = "fst (onResults ?c ?io 1066 ''f3'' (seen 0.03) ?w2)"
  have p0: "DETECTION_FREQ_MS \<le> 1000 - lastDetection unmounted"
    and t0: "\<not> isTriggered unmounted" and v0: "vfx unmounted = []"
    by (simp_all add: DETECTION_FREQ_MS_def unmounted_def)
  note r1 = onResults_pinch[OF p0 pinch_seen, of ?c ?io "''f1''"]
  have s1: "snd (onResults ?c ?io 1000 ''f1'' (seen 0.03) unmounted) = Tracked True"
    using r1(1) t0 by (simp add: TRIGGER_THRESHOLD_def)
  have p1: "DETECTION_FREQ_MS \<le> 1033 - lastDetection ?w1"
    using r1(3) by (simp add: DETECTION_FREQ_MS_def)
  have n: "multiHandLandmarks no_hands = None \<or> multiHandLandmarks no_hands = Some []"
    by (simp add: no_hands_def)
  note r2 = onResults_no_hand[OF p1 n, of ?c ?io "''f2''"]
  have s2: "snd (onResults ?c ?io 1033 ''f2'' no_hands ?w1) = NoHand"
    unfolding r2 by simp
  have w2: "isTriggered ?w2" "lastDetection ?w2 = 1033" "vfx ?w2 = vfx ?w1"
    unfolding r2 using r1(2) by (simp_all add: TRIGGER_THRESHOLD_def)
  have p2: "DETECTION_FREQ_MS \<le> 1066 - lastDetection ?w2"
    using w2(2) by (simp add: DETECTION_FREQ_MS_def)
  note r3 = onResults_pinch[OF p2 pinch_seen, of ?c ?io "''f3''"]
  have s3: "snd (onResults ?c ?io 1066 ''f3'' (seen 0.03) ?w2) = Tracked False"
    using r3(1) w2(1) by simp
  then have q3: "snd (onResults ?c ?io 1066 ''f3'' (seen 0.03) ?w2) \<noteq> Tracked True" by simp
  have v: "map vid (vfx ?w3) = [''f1'']"
    using onResults_shot_vfx[OF s1] onResults_quiet(1)[OF q3] w2(3) v0 by simp
  have "pinch no_hands = None" by (simp add: pinch_def no_hands_def)
  then have a: "map (\<lambda>t. pinch (snd (snd t))) interrupted_series = [Some 0.03, None, Some 0.03]"
    by (simp add: interrupted_series_def pinch_seen)
  have b: "paced (lastDetection unmounted) interrupted_series"
    by (simp add: interrupted_series_def DETECTION_FREQ_MS_def unmounted_def)
  show ?thesis using a b s1 s2 s3 v
    by (simp add: interrupted_series_def)
qed

section \<open>Properties: the floating texts\<close>

lemma spawnEnemy_vfx: "vfx (spawnEnemy rng now w) = vfx w"
  by (simp add: spawnEnemy_def)

lemma animate_enemy_vfx: "vfx (animate_enemy rng now r w) = vfx w"
  by (simp add: animate_enemy_def Let_def spawnEnemy_vfx)

lemma fold_animate_enemy_vfx: "vfx (fold (animate_enemy rng now) rs w) = vfx w"
  by (induction rs arbitrary: w) (simp_all add: animate_enemy_vfx)

lemma animate_vfx: "vfx (animate rng now w) = age_vfx (vfx w)"
  by (simp add: animate_def Let_def fold_animate_enemy_vfx)

lemma age_vfx_filter: "age_vfx vs = filter (\<lambda>v. life v > 0) (map age vs)"
  by (induction vs) simp_all

lemma age_vfx_bound:
  assumes "\<forall>v\<in>set vs. life v \<le> b"
  shows "\<forall>v\<in>set (age_vfx vs). 0 < life v \<and> life v \<le> b - 0.025"
  using assms by (auto simp: age_vfx_filter age_def)

lemma frames_vfx:
  "vfx (fold (animate rng) nows w) = (age_vfx ^^ length nows) (vfx w)"
proof (induction nows arbitrary: w)
  case Nil
  then show ?case by simp
next
  case (Cons now nows)
  show ?case by (simp add: Cons.IH animate_vfx funpow_swap1)
qed

lemma frames_bound:
  assumes "\<forall>v\<in>set vs. life v \<le> b"
  shows "\<forall>v\<in>set ((age_vfx ^^ k) vs). life v \<le> b - real k * 0.025 \<and> (0 < k \<longrightarrow> 0 < life v)"
proof (induction k)
  case 0
  with assms show ?case by simp
next
  case (Suc k)
  then have "\<forall>v\<in>set ((age_vfx ^^ k) vs). life v \<le> b - real k * 0.025" by blast
  from age_vfx_bound[OF this]
  have f: "\<forall>v\<in>set (age_vfx ((age_vfx ^^ k) vs)). 0 < life v \<and> life v \<le> b - real k * 0.025 - 0.025" .
  show ?case
  proof
    fix v
    assume "v \<in> set ((age_vfx ^^ Suc k) vs)"
    then have "v \<in> set (age_vfx ((age_vfx ^^ k) vs))" by simp
    with f have "0 < life v" "life v \<le> b - real k * 0.025 - 0.025" by blast+
    then show "life v \<le> b - real (Suc k) * 0.025 \<and> (0 < Suc k \<longrightarrow> 0 < life v)"
      by (simp add: add_divide_distrib)
  qed
qed

lemma frames_expire:
  assumes "\<forall>v\<in>set vs. life v \<le> 1"
  shows "(age_vfx ^^ 40) vs = []"
proof (cases "(age_vfx ^^ 40) vs")
  case Nil
  then show ?thesis .
next
  case (Cons v rest)
  then have "v \<in> set ((age_vfx ^^ 40) vs)" by simp
  with frames_bound[OF assms, of 40] have "life v \<le> 1 - real (40::nat) * 0.025" "0 < life v"
    by auto
  then show ?thesis by simp
qed

lemma frames_present:
  assumes "life v = 1"
  shows "k < 40 \<Longrightarrow> (age_vfx ^^ k) [v] = [(age ^^ k) v] \<and> life ((age ^^ k) v) = 1 - real k * 0.025"
proof (induction k)
  case 0
  with assms show ?case by simp
next
  case (Suc k)
  then have ih: "(age_vfx ^^ k) [v] = [(age ^^ k) v]" "life ((age ^^ k) v) = 1 - real k * 0.025"
    by simp_all
  have "life (age ((age ^^ k) v)) = life ((age ^^ k) v) - 0.025"
    by (simp add: age_def)
  also have "\<dots> = 1 - real k * 0.025 - 0.025" by (simp only: ih(2))
  also have "\<dots> = 1 - real (Suc k) * 0.025" by (simp add: add_divide_distrib)
  finally have l: "life (age ((age ^^ k) v)) = 1 - real (Suc k) * 0.025" .
  have "real (Suc k) < 40" using Suc.prems by linarith
  then have "0 < life (age ((age ^^ k) v))" unfolding l by simp
  then show ?case using ih(1) l by simp
qed

text \<open>
  C7. Each frame takes exactly 0.025 from the life of a floating text and adds exactly
  0.04 to its height, leaving its other coordinates, so its life strictly decreases; the
  frame keeps exactly the items whose life is still positive afterwards. A text created
  with life 1 is in the collection, with life \<open>1 - 0.025 k\<close>, after each of the first 39
  frames, and after 40 frames no text whose life was at most 1 is left.
\<close>

theorem vfx_decay:
  "life (age v) = life v - 0.025
   \<and> vy (vpos (age v)) = vy (vpos v) + 0.04
   \<and> vx (vpos (age v)) = vx (vpos v) \<and> vz (vpos (age v)) = vz (vpos v)
   \<and> life (age v) < life v
   \<and> age_vfx vs = filter (\<lambda>v. life v > 0) (map age vs)
   \<and> vfx (animate rng now w) = age_vfx (vfx w)
   \<and> (life v = 1 \<longrightarrow> k < 40 \<longrightarrow> vfx w = [v] \<longrightarrow> length nows = k \<longrightarrow>
        vfx (fold (animate rng) nows w) = [(age ^^ k) v]
        \<and> life ((age ^^ k) v) = 1 - real k * 0.025)
   \<and> ((\<forall>v\<in>set (vfx w). life v \<le> 1) \<longrightarrow> length nows = 40 \<longrightarrow>
        vfx (fold (animate rng) nows w) = [])"
proof -
  have a: "life (age v) = life v - 0.025 \<and> vy (vpos (age v)) = vy (vpos v) + 0.04
     \<and> vx (vpos (age v)) = vx (vpos v) \<and> vz (vpos (age v)) = vz (vpos v)
     \<and> life (age v) < life v"
    by (simp add: age_def)
  have b: "life v = 1 \<longrightarrow> k < 40 \<longrightarrow> vfx w = [v] \<longrightarrow> length nows = k \<longrightarrow>
        vfx (fold (animate rng) nows w) = [(age ^^ k) v]
        \<and> life ((age ^^ k) v) = 1 - real k * 0.025"
    using frames_present[of v k] by (simp add: frames_vfx)
  have c: "(\<forall>v\<in>set (vfx w). life v \<le> 1) \<longrightarrow> length nows = 40 \<longrightarrow>
        vfx (fold (animate rng) nows w) = []"
    using frames_expire[of "vfx w"] by (simp add: frames_vfx)
  show ?thesis using a b c age_vfx_filter animate_vfx by blast
qed

theorem vfx_decay_witness:
  "vfx (fold (animate draws) (replicate 40 1000) (unmounted \<lparr> vfx := [miss_text] \<rparr>)) = []
   \<and> vfx (fold (animate draws) (replicate 39 1000) (unmounted \<lparr> vfx := [miss_text] \<rparr>))
       = [(age ^^ 39) miss_text]
   \<and> life ((age ^^ 39) miss_text) = 0.025"
proof -
  let ?w = "unmounted \<lparr> vfx := [miss_text] \<rparr>"
  have l: "life miss_text = 1" by (simp add: miss_text_def)
  have h: "\<forall>v\<in>set (vfx ?w). life v \<le> 1" by (simp add: l)
  show ?thesis
    using vfx_decay[of miss_text "[]" draws 0 ?w 39 "replicate 39 1000"]
      vfx_decay[of miss_text "[]" draws 0 ?w 0 "replicate 40 1000"] l h
    by simp
qed

section \<open>Properties: the registered handler\<close>

lemma handleShoot_objects:
  assumes "findIndex (\<lambda>r. io origin direction (objects w ! r)) (enemies w) = Some i"
    and "enemies w ! i < length (objects w)"
  shows "objects (handleShoot c io now fid direction origin w)
           = (objects w)[enemies w ! i :=
                (objects w ! (enemies w ! i))
                  \<lparr> isDying := True,
                    mesh := (mesh (objects w ! (enemies w ! i)))
                       \<lparr> mesh_scale := mesh_scale (mesh (objects w ! (enemies w ! i))) * 2 \<rparr> \<rparr>]"
  using assms by (simp add: handleShoot_def Let_def triggerFlash_def)

lemma handleShoot_first_match:
  assumes "i < length (enemies w)" and "enemies w ! i < length (objects w)"
    and "io origin direction (objects w ! (enemies w ! i))"
    and "\<forall>j<i. \<not> io origin direction (objects w ! (enemies w ! j))"
  shows "isDying (objects (handleShoot c io now fid direction origin w) ! (enemies w ! i))"
    and "timeouts (handleShoot c io now fid direction origin w)
           = timeouts w @ [(now + 150, FlashReset), (now + 100, RemoveRespawn (enemies w ! i))]"
proof -
  have f: "findIndex (\<lambda>r. io origin direction (objects w ! r)) (enemies w) = Some i"
    using assms(1,3,4) by (intro findIndex_first) simp_all
  show "isDying (objects (handleShoot c io now fid direction origin w) ! (enemies w ! i))"
    using f assms(2) by (simp add: handleShoot_def Let_def triggerFlash_def)
  show "timeouts (handleShoot c io now fid direction origin w)
           = timeouts w @ [(now + 150, FlashReset), (now + 100, RemoveRespawn (enemies w ! i))]"
    using f assms(2) by (simp add: handleShoot_def Let_def triggerFlash_def)
qed

lemma handleShoot_reward:
  assumes "findIndex (\<lambda>r. io origin direction (objects w ! r)) (enemies w) = Some i"
    and "enemies w ! i < length (objects w)"
  shows "score (gameState (handleShoot c io now fid direction origin w))
           = score (gameState w) + points (objects w ! (enemies w ! i)) + combo c div 5 * 50"
    and "combo (gameState (handleShoot c io now fid direction origin w))
           = combo (gameState w) + 1"
  using assms by (simp_all add: handleShoot_def Let_def triggerFlash_def)

lemma step_Detect:
  "step rng io (Detect now fid res) w = fst (onResults initialGameState io now fid res w)"
  by (simp add: step_def)

lemma detect_seen_shot:
  assumes "DETECTION_FREQ_MS \<le> now - lastDetection w" and "\<bar>d\<bar> < TRIGGER_THRESHOLD"
    and "\<not> isTriggered w"
  obtains direction origin w2 where
    "step rng io (Detect now fid (seen d)) w
       = handleShoot initialGameState io now fid direction origin w2"
    "objects w2 = objects w" "enemies w2 = enemies w" "vfx w2 = vfx w"
    "timeouts w2 = timeouts w" "spawned w2 = spawned w"
    "gameState w2 = (gameState w) \<lparr> handDetected := True \<rparr>"
proof -
  have "snd (onResults initialGameState io now fid (seen d) w) = Tracked True"
    using onResults_pinch(1)[OF assms(1) pinch_seen, of initialGameState io fid] assms(2,3)
    by simp
  from onResults_shot[OF this] show ?thesis
    using that by (auto simp: step_Detect)
qed

text \<open>
  C2, where the code departs from it. The handler registered with the detector is the
  closure of the first render, so the combo that the bonus is computed from is the
  initial 0 and never the combo before the hit: with combo 5 and score 0, a hit on a
  target worth 100 points leaves the score at 100 (the claim says 150). The combo itself
  is updated from the current state and becomes 6.
\<close>

theorem combo_bonus_lost:
  "combo (gameState (with_tally 0 5 lone)) = 5
   \<and> score (gameState (with_tally 0 5 lone)) = 0
   \<and> points (objects (with_tally 0 5 lone) ! 0) = 100
   \<and> score (gameState (step draws ray_hits_all (Detect 1000 ''f'' (seen 0.03))
               (with_tally 0 5 lone))) = 100
   \<and> combo (gameState (step draws ray_hits_all (Detect 1000 ''f'' (seen 0.03))
               (with_tally 0 5 lone))) = 6"
proof -
  let ?w = "with_tally 0 5 lone"
  have w: "objects ?w = [target ''a'' (Vector3 0 0 (- 10)) False 100]" "enemies ?w = [0]"
    "lastDetection ?w = 0" "\<not> isTriggered ?w" "score (gameState ?w) = 0"
    "combo (gameState ?w) = 5"
    by (simp_all add: with_tally_def lone_def arena_def unmounted_def)
  have p: "DETECTION_FREQ_MS \<le> 1000 - lastDetection ?w"
    by (simp add: w DETECTION_FREQ_MS_def)
  have t: "\<bar>0.03::real\<bar> < TRIGGER_THRESHOLD" by (simp add: TRIGGER_THRESHOLD_def)
  from detect_seen_shot[OF p t w(4), of draws ray_hits_all "''f''"]
  obtain direction origin w2 where s:
    "step draws ray_hits_all (Detect 1000 ''f'' (seen 0.03)) ?w
       = handleShoot initialGameState ray_hits_all 1000 ''f'' direction origin w2"
    "objects w2 = objects ?w" "enemies w2 = enemies ?w"
    "gameState w2 = (gameState ?w) \<lparr> handDetected := True \<rparr>"
    by blast
  have f: "findIndex (\<lambda>r. ray_hits_all origin direction (objects w2 ! r)) (enemies w2) = Some 0"
    by (simp add: s w ray_hits_all_def)
  have l: "enemies w2 ! 0 < length (objects w2)" by (simp add: s w)
  have c0: "combo initialGameState = 0" by (simp add: initialGameState_def)
  from handleShoot_reward[where io=ray_hits_all and origin=origin and direction=direction and w=w2 and i=0
        and c=initialGameState and now=1000 and fid="''f''", OF f l]
  show ?thesis unfolding s(1)
    by (simp add: s(2-) w c0 target_def)
qed

text \<open>
  C1, where the code departs from it. The search for the hit target runs over the whole
  collection and never looks at the dying flag: with a dying target first and a live one
  second, both on the ray, the shot resolves against the dying one again. It is paid a
  second time and a second removal of it is scheduled; the live target is untouched.
\<close>

theorem dying_target_hit_again:
  "isDying (objects dying_first ! 0) \<and> \<not> isDying (objects dying_first ! 1)
   \<and> enemies dying_first = [0, 1]
   \<and> score (gameState (step draws ray_hits_all (Detect 1000 ''f'' (seen 0.03)) dying_first))
       = score (gameState dying_first) + points (objects dying_first ! 0)
   \<and> timeouts (step draws ray_hits_all (Detect 1000 ''f'' (seen 0.03)) dying_first)
       = [(1150, FlashReset), (1100, RemoveRespawn 0)]
   \<and> \<not> isDying (objects (step draws ray_hits_all (Detect 1000 ''f'' (seen 0.03)) dying_first) ! 1)"
proof -
  let ?w = "dying_first"
  have w: "objects ?w = [target ''a'' (Vector3 0 0 (- 10)) True 100,
                          target ''b'' (Vector3 0 0 (- 20)) False 250]"
    "enemies ?w = [0, 1]" "lastDetection ?w = 0" "\<not> isTriggered ?w" "timeouts ?w = []"
    by (simp_all add: dying_first_def arena_def unmounted_def upt_rec)
  have p: "DETECTION_FREQ_MS \<le> 1000 - lastDetection ?w"
    by (simp add: w DETECTION_FREQ_MS_def)
  have t: "\<bar>0.03::real\<bar> < TRIGGER_THRESHOLD" by (simp add: TRIGGER_THRESHOLD_def)
  from detect_seen_shot[OF p t w(4), of draws ray_hits_all "''f''"]
  obtain direction origin w2 where s:
    "step draws ray_hits_all (Detect 1000 ''f'' (seen 0.03)) ?w
       = handleShoot initialGameState ray_hits_all 1000 ''f'' direction origin w2"
    "objects w2 = objects ?w" "enemies w2 = enemies ?w" "timeouts w2 = timeouts ?w"
    "gameState w2 = (gameState ?w) \<lparr> handDetected := True \<rparr>"
    by blast
  have f: "findIndex (\<lambda>r. ray_hits_all origin direction (objects w2 ! r)) (enemies w2) = Some 0"
    by (simp add: s w ray_hits_all_def)
  have l: "enemies w2 ! 0 < length (objects w2)" by (simp add: s w)
  note r = handleShoot_reward[where io=ray_hits_all and origin=origin and direction=direction and w=w2 and i=0
        and c=initialGameState and now=1000 and fid="''f''", OF f l]
    handleShoot_hit(3)[where io=ray_hits_all and origin=origin and direction=direction and w=w2 and i=0
        and c=initialGameState and now=1000 and fid="''f''", OF f l]
    handleShoot_objects[where io=ray_hits_all and origin=origin and direction=direction and w=w2 and i=0
        and c=initialGameState and now=1000 and fid="''f''", OF f l]
  have c0: "combo initialGameState = 0" by (simp add: initialGameState_def)
  show ?thesis unfolding s(1) using r
    by (simp add: s(2-) w c0 target_def)
qed

section \<open>Properties: the population\<close>

lemma new_enemy_eid: "eid (new_enemy d now) = d_id d"
  by (simp add: new_enemy_def Let_def)

lemma new_enemy_isDying: "isDying (new_enemy d now) = False"
  by (simp add: new_enemy_def Let_def)

lemma view_spawnEnemy:
  assumes "view w = (E, I, D, T, S, G, L)"
  shows "view (spawnEnemy rng now w)
           = (E @ [length I], I @ [d_id (rng S)], D @ [False], T, Suc S, G, L)"
  using assms by (auto simp: view_def spawnEnemy_def new_enemy_eid new_enemy_isDying)

lemma findIndex_cong_set:
  "(\<And>x. x \<in> set xs \<Longrightarrow> p x = q x) \<Longrightarrow> findIndex p xs = findIndex q xs"
  by (induction xs) simp_all

lemma view_detect_shot:
  assumes v: "view w = (E, I, D, T, S, False, L)"
    and p: "DETECTION_FREQ_MS \<le> now - L" and d: "\<bar>d\<bar> < TRIGGER_THRESHOLD"
    and f: "findIndex (\<lambda>r. I ! r = i) E = Some k"
    and wf: "\<forall>r\<in>set E. r < length I"
  shows "view (step rng (ray_hits_id i) (Detect now fid (seen d)) w)
           = (E, I, D[E ! k := True],
              T @ [(now + 150, FlashReset), (now + 100, RemoveRespawn (E ! k))], S, True, now)"
proof -
  from v have w: "enemies w = E" "map eid (objects w) = I" "map isDying (objects w) = D"
    "timeouts w = T" "spawned w = S" "\<not> isTriggered w" "lastDetection w = L"
    by (simp_all add: view_def)
  have p': "DETECTION_FREQ_MS \<le> now - lastDetection w" using p w by simp
  from detect_seen_shot[OF p' d w(6), of rng "ray_hits_id i" fid]
  obtain direction origin w2 where s:
    "step rng (ray_hits_id i) (Detect now fid (seen d)) w
       = handleShoot initialGameState (ray_hits_id i) now fid direction origin w2"
    "objects w2 = objects w" "enemies w2 = enemies w" "timeouts w2 = timeouts w"
    "spawned w2 = spawned w"
    by blast
  have len: "length (objects w) = length I" using w(2) by (metis length_map)
  have e: "eid (objects w ! r) = I ! r" if "r \<in> set E" for r
    using that wf len w(2) by (metis nth_map)
  have f2: "findIndex (\<lambda>r. ray_hits_id i origin direction (objects w2 ! r)) (enemies w2) = Some k"
    unfolding s w ray_hits_id_def using f e
    by (simp add: findIndex_cong_set[of E "\<lambda>r. eid (objects w ! r) = i" "\<lambda>r. I ! r = i"])
  from findIndex_Some[OF f] have k: "k < length E" by simp
  then have l: "enemies w2 ! k < length (objects w2)"
    using wf len by (simp add: s w)
  note h = handleShoot_hit(2,3)[where io="ray_hits_id i" and origin=origin and direction=direction
      and w=w2 and i=k and c=initialGameState and now=now and fid=fid, OF f2 l]
    handleShoot_objects[where io="ray_hits_id i" and origin=origin and direction=direction
      and w=w2 and i=k and c=initialGameState and now=now and fid=fid, OF f2 l]
    handleShoot_frame(1,3)[of initialGameState "ray_hits_id i" now fid direction origin w2]
  have t: "isTriggered (step rng (ray_hits_id i) (Detect now fid (seen d)) w)"
    "lastDetection (step rng (ray_hits_id i) (Detect now fid (seen d)) w) = now"
    using onResults_pinch(2,3)[OF p' pinch_seen, of initialGameState "ray_hits_id i" fid] d
    by (simp_all add: step_Detect)
  have ek: "eid (objects w ! (E ! k)) = I ! (E ! k)"
    using e[of "E ! k"] k by simp
  have "view (handleShoot initialGameState (ray_hits_id i) now fid direction origin w2)
          = (E, I, D[E ! k := True],
              T @ [(now + 150, FlashReset), (now + 100, RemoveRespawn (E ! k))], S, True, now)"
    using t unfolding s(1)
    by (simp add: view_def h s(2-) w map_update ek)
  then show ?thesis by (simp only: s(1))
qed

lemma view_detect_release:
  assumes v: "view w = (E, I, D, T, S, G, L)"
    and p: "DETECTION_FREQ_MS \<le> now - L" and d: "TRIGGER_THRESHOLD \<le> \<bar>d\<bar>"
  shows "view (step rng io (Detect now fid (seen d)) w) = (E, I, D, T, S, False, now)"
proof -
  from v have w: "enemies w = E" "map eid (objects w) = I" "map isDying (objects w) = D"
    "timeouts w = T" "spawned w = S" "lastDetection w = L"
    by (simp_all add: view_def)
  have p': "DETECTION_FREQ_MS \<le> now - lastDetection w" using p w by simp
  note r = onResults_pinch[OF p' pinch_seen, of initialGameState io fid d]
  have "snd (onResults initialGameState io now fid (seen d) w) = Tracked False"
    using r(1) d by simp
  from onResults_no_shot[OF this] r(2,3) d show ?thesis
    by (simp add: view_def step_Detect w)
qed

lemma view_timer_remove:
  assumes v: "view w = (E, I, D, T, S, G, L)"
    and m: "min_due T = Some k" and t: "T ! k = (due, RemoveRespawn r)" and u: "due \<le> now"
    and wf: "\<forall>a\<in>set E. a < length I" "r < length I"
  shows "view (step rng io (Timer now) w)
           = (filter (\<lambda>a. I ! a \<noteq> I ! r) E @ [length I], I @ [d_id (rng S)], D @ [False],
              take k T @ drop (Suc k) T, Suc S, G, L)"
proof -
  from v have w: "enemies w = E" "map eid (objects w) = I" "map isDying (objects w) = D"
    "timeouts w = T" "spawned w = S" "isTriggered w = G" "lastDetection w = L"
    by (simp_all add: view_def)
  have len: "length (objects w) = length I" using w(2) by (metis length_map)
  have e: "eid (objects w ! a) = I ! a" if "a < length I" for a
    using that len w(2) by (metis nth_map)
  have fl: "filter (\<lambda>a. eid (objects w ! a) \<noteq> eid (objects w ! r)) E
              = filter (\<lambda>a. I ! a \<noteq> I ! r) E"
    using wf e by (intro filter_cong) auto
  let ?w1 = "w \<lparr> timeouts := take k T @ drop (Suc k) T,
                 enemies := filter (\<lambda>a. I ! a \<noteq> I ! r) E \<rparr>"
  have v1: "view ?w1 = (filter (\<lambda>a. I ! a \<noteq> I ! r) E, I, D, take k T @ drop (Suc k) T, S, G, L)"
    by (simp add: view_def w)
  have "step rng io (Timer now) w = spawnEnemy rng now ?w1"
    using m t u by (simp add: step_def fire_timer_def run_timeout_def w fl)
  then show ?thesis using view_spawnEnemy[OF v1, of rng now] by simp
qed

lemma view_timer_flash:
  assumes v: "view w = (E, I, D, T, S, G, L)"
    and m: "min_due T = Some k" and t: "T ! k = (due, FlashReset)" and u: "due \<le> now"
  shows "view (step rng io (Timer now) w) = (E, I, D, take k T @ drop (Suc k) T, S, G, L)"
  using assms by (auto simp: view_def step_def fire_timer_def run_timeout_def)

lemma view_mounted:
  "view mounted
     = ([0, 1, 2, 3], [''n'', ''nn'', ''nnn'', ''nnnn''], [False, False, False, False],
        [], 4, False, 0)"
proof -
  have u: "view unmounted = ([], [], [], [], 0, False, 0)"
    by (simp add: view_def unmounted_def)
  have i: "[0..<ENEMY_COUNT] = [0, 1, 2, 3]"
    by (simp add: ENEMY_COUNT_def upt_rec)
  note s1 = view_spawnEnemy[OF u, of draws 0]
  note s2 = view_spawnEnemy[OF s1, of draws 0]
  note s3 = view_spawnEnemy[OF s2, of draws 0]
  note s4 = view_spawnEnemy[OF s3, of draws 0]
  show ?thesis using s4
    by (simp add: mounted_def initThree_def i draws_def numeral_eq_Suc)
qed

lemma run_Cons: "run rng io (ev # evs) w = run rng io evs (step rng io ev w)"
  by (simp add: run_def)

lemma run_Nil: "run rng io [] w = w"
  by (simp add: run_def)

lemma view_double_tap:
  "view (run draws (ray_hits_id ''n'') double_tap mounted)
     = ([1, 2, 3, 4, 5], [''n'', ''nn'', ''nnn'', ''nnnn'', ''nnnnn'', ''nnnnnn''],
        [True, False, False, False, False, False], [], 6, True, 1066)"
proof -
  let ?io = "ray_hits_id ''n''"
  let ?w1 = "step draws ?io (Detect 1000 ''f1'' (seen 0.03)) mounted"
  let ?w2 = "step draws ?io (Detect 1033 ''f2'' (seen 0.08)) ?w1"
  let ?w3 = "step draws ?io (Detect 1066 ''f3'' (seen 0.03)) ?w2"
  let ?w4 = "step draws ?io (Timer 1100) ?w3"
  let ?w5 = "step draws ?io (Timer 1150) ?w4"
  let ?w6 = "step draws ?io (Timer 1166) ?w5"
  let ?w7 = "step draws ?io (Timer 1216) ?w6"
  let ?I = "[''n'', ''nn'', ''nnn'', ''nnnn'']"
  have v1: "view ?w1 = ([0, 1, 2, 3], ?I, [True, False, False, False],
                [(1150, FlashReset), (1100, RemoveRespawn 0)], 4, True, 1000)"
    using view_detect_shot[OF view_mounted, of 1000 "0.03" "''n''" 0 draws "''f1''"]
    by (simp add: DETECTION_FREQ_MS_def TRIGGER_THRESHOLD_def)
  have v2: "view ?w2 = ([0, 1, 2, 3], ?I, [True, False, False, False],
                [(1150, FlashReset), (1100, RemoveRespawn 0)], 4, False, 1033)"
    using view_detect_release[OF v1, of 1033 "0.08" draws ?io "''f2''"]
    by (simp add: DETECTION_FREQ_MS_def TRIGGER_THRESHOLD_def)
  have v3: "view ?w3 = ([0, 1, 2, 3], ?I, [True, False, False, False],
                [(1150, FlashReset), (1100, RemoveRespawn 0),
                 (1216, FlashReset), (1166, RemoveRespawn 0)], 4, True, 1066)"
    using view_detect_shot[OF v2, of 1066 "0.03" "''n''" 0 draws "''f3''"]
    by (simp add: DETECTION_FREQ_MS_def TRIGGER_THRESHOLD_def)
  have v4: "view ?w4 = ([1, 2, 3, 4], ?I @ [''nnnnn''], [True, False, False, False, False],
                [(1150, FlashReset), (1216, FlashReset), (1166, RemoveRespawn 0)],
                5, True, 1066)"
    using view_timer_remove[OF v3, of 1 1100 0 1100 draws ?io]
    by (simp add: draws_def numeral_eq_Suc)
  have v5: "view ?w5 = ([1, 2, 3, 4], ?I @ [''nnnnn''], [True, False, False, False, False],
                [(1216, FlashReset), (1166, RemoveRespawn 0)], 5, True, 1066)"
    using view_timer_flash[OF v4, of 0 1150 1150 draws ?io]
    by simp
  have v6: "view ?w6 = ([1, 2, 3, 4, 5], ?I @ [''nnnnn'', ''nnnnnn''],
                [True, False, False, False, False, False],
                [(1216, FlashReset)], 6, True, 1066)"
    using view_timer_remove[OF v5, of 1 1166 0 1166 draws ?io]
    by (simp add: draws_def numeral_eq_Suc)
  have v7: "view ?w7 = ([1, 2, 3, 4, 5], ?I @ [''nnnnn'', ''nnnnnn''],
                [True, False, False, False, False, False], [], 6, True, 1066)"
    using view_timer_flash[OF v6, of 0 1216 1216 draws ?io]
    by simp
  show ?thesis using v7
    by (simp add: double_tap_def run_Cons run_Nil)
qed

lemma view_census:
  assumes "view w = (E, I, D, T, S, G, L)" and "\<forall>r\<in>set E. r < length D"
  shows "population w = length E" and "dying w = filter (\<lambda>r. D ! r) E"
    and "live w = filter (\<lambda>r. \<not> D ! r) E" and "timeouts w = T"
proof -
  from assms(1) have w: "enemies w = E" "map isDying (objects w) = D" "timeouts w = T"
    by (simp_all add: view_def)
  have len: "length (objects w) = length D" using w(2) by (metis length_map)
  have d: "isDying (objects w ! r) = D ! r" if "r \<in> set E" for r
    using that assms(2) len w(2) by (metis nth_map)
  show "population w = length E" by (simp add: population_def w)
  show "dying w = filter (\<lambda>r. D ! r) E"
    unfolding dying_def w using d by (intro filter_cong) auto
  show "live w = filter (\<lambda>r. \<not> D ! r) E"
    unfolding live_def w using d by (intro filter_cong) auto
  show "timeouts w = T" by (rule w(3))
qed

text \<open>
  C4, where the code departs from it. After \<open>initThree\<close> the population is 4. The thumb
  closes, opens and closes again on three detection ticks 33 ms apart while the ray stays
  on one target: both shots resolve against it, the second while it is dying, and each
  schedules a removal and respawn. The first removal takes the target out and spawns one;
  the second finds nothing to take out and spawns all the same. When every timeout has
  run, five targets are in the collection, all of them live.
\<close>

theorem population_grows:
  "population mounted = ENEMY_COUNT
   \<and> population (run draws (ray_hits_id ''n'') double_tap mounted) = 5
   \<and> length (live (run draws (ray_hits_id ''n'') double_tap mounted)) = 5
   \<and> dying (run draws (ray_hits_id ''n'') double_tap mounted) = []
   \<and> timeouts (run draws (ray_hits_id ''n'') double_tap mounted) = []"
proof -
  have a: "population mounted = ENEMY_COUNT"
    using view_census(1)[OF view_mounted] by (simp add: ENEMY_COUNT_def)
  note c = view_census[OF view_double_tap]
  have b: "population (run draws (ray_hits_id ''n'') double_tap mounted) = 5"
    using c(1) by simp
  have d: "dying (run draws (ray_hits_id ''n'') double_tap mounted) = []"
    using c(2) by simp
  have l: "length (live (run draws (ray_hits_id ''n'') double_tap mounted)) = 5"
    using c(3) by simp
  have t: "timeouts (run draws (ray_hits_id ''n'') double_tap mounted) = []"
    using c(4) by simp
  show ?thesis using a b d l t by simp
qed

section \<open>Properties: the frame loop\<close>

lemma spawnEnemy_fields:
  "objects (spawnEnemy rng now w) = objects w @ [new_enemy (rng (spawned w)) now]"
  "enemies (spawnEnemy rng now w) = enemies w @ [length (objects w)]"
  "spawned (spawnEnemy rng now w) = Suc (spawned w)"
  by (simp_all add: spawnEnemy_def)

lemma animate_enemy_strays:
  assumes "r < length (objects w)" and "strays now w r"
  shows "enemies (animate_enemy rng now r w)
           = filter (\<lambda>a. eid ((objects w)[r := advanced now (objects w ! r)] ! a)
                          \<noteq> eid (advanced now (objects w ! r))) (enemies w)
             @ [length (objects w)]"
    and "objects (animate_enemy rng now r w)
           = (objects w)[r := advanced now (objects w ! r)]
             @ [new_enemy (rng (spawned w)) now]"
    and "spawned (animate_enemy rng now r w) = Suc (spawned w)"
  using assms
  by (auto simp: animate_enemy_def Let_def strays_def advanced_def spawnEnemy_fields)

lemma animate_enemy_stays:
  assumes "r < length (objects w)" and "\<not> strays now w r"
  shows "enemies (animate_enemy rng now r w) = enemies w"
    and "objects (animate_enemy rng now r w) = (objects w)[r := advanced now (objects w ! r)]"
    and "spawned (animate_enemy rng now r w) = spawned w"
  using assms
  by (auto simp: animate_enemy_def Let_def strays_def advanced_def)

lemma animate_enemy_length:
  "r < length (objects w) \<Longrightarrow> length (objects w) \<le> length (objects (animate_enemy rng now r w))"
  by (cases "strays now w r") (simp_all add: animate_enemy_strays animate_enemy_stays)

lemma animate_enemy_other:
  assumes "r < length (objects w)" and "a < length (objects w)" and "a \<noteq> r"
  shows "objects (animate_enemy rng now r w) ! a = objects w ! a"
  using assms
  by (cases "strays now w r")
    (simp_all add: animate_enemy_strays animate_enemy_stays nth_append)

lemma animate_enemy_strays_other:
  assumes "r < length (objects w)" and "a < length (objects w)" and "a \<noteq> r"
  shows "strays now (animate_enemy rng now r w) a = strays now w a"
  using animate_enemy_other[OF assms] by (simp add: strays_def)

lemma animate_enemy_absent:
  assumes "r < length (objects w)" and "a < length (objects w)" and "a \<notin> set (enemies w)"
  shows "a \<notin> set (enemies (animate_enemy rng now r w))"
  using assms
  by (cases "strays now w r") (auto simp: animate_enemy_strays animate_enemy_stays)

lemma animate_enemy_removes:
  assumes "r < length (objects w)" and "strays now w r"
  shows "r \<notin> set (enemies (animate_enemy rng now r w))"
  using assms by (auto simp: animate_enemy_strays)

lemma fold_animate_length:
  "\<forall>r\<in>set rs. r < length (objects w) \<Longrightarrow>
   length (objects w) \<le> length (objects (fold (animate_enemy rng now) rs w))"
proof (induction rs arbitrary: w)
  case Nil
  then show ?case by simp
next
  case (Cons x rs)
  have l: "length (objects w) \<le> length (objects (animate_enemy rng now x w))"
    using Cons.prems by (simp add: animate_enemy_length)
  then have "\<forall>r\<in>set rs. r < length (objects (animate_enemy rng now x w))"
    using Cons.prems by auto
  from Cons.IH[OF this] l show ?case by simp
qed

lemma fold_animate_absent:
  assumes "\<forall>r\<in>set rs. r < length (objects w)" and "a < length (objects w)"
    and "a \<notin> set (enemies w)"
  shows "a \<notin> set (enemies (fold (animate_enemy rng now) rs w))"
  using assms
proof (induction rs arbitrary: w)
  case Nil
  then show ?case by simp
next
  case (Cons x rs)
  let ?w = "animate_enemy rng now x w"
  have x: "x < length (objects w)" using Cons.prems(1) by simp
  have l: "length (objects w) \<le> length (objects ?w)" using x by (rule animate_enemy_length)
  have "\<forall>r\<in>set rs. r < length (objects ?w)" using Cons.prems(1) l by auto
  moreover have "a < length (objects ?w)" using Cons.prems(2) l by simp
  moreover have "a \<notin> set (enemies ?w)"
    using x Cons.prems(2,3) by (rule animate_enemy_absent)
  ultimately show ?case using Cons.IH[of ?w] by simp
qed

lemma fold_animate_removes:
  assumes "\<forall>r\<in>set rs. r < length (objects w)" and "distinct rs"
    and "r \<in> set rs" and "strays now w r"
  shows "r \<notin> set (enemies (fold (animate_enemy rng now) rs w))"
  using assms
proof (induction rs arbitrary: w)
  case Nil
  then show ?case by simp
next
  case (Cons x rs)
  let ?w = "animate_enemy rng now x w"
  have x: "x < length (objects w)" using Cons.prems(1) by simp
  have l: "length (objects w) \<le> length (objects ?w)" using x by (rule animate_enemy_length)
  have v: "\<forall>r\<in>set rs. r < length (objects ?w)" using Cons.prems(1) l by auto
  show ?case
  proof (cases "r = x")
    case True
    have "r < length (objects ?w)" using True x l by simp
    moreover have "r \<notin> set (enemies ?w)"
      using True x Cons.prems(4) by (simp add: animate_enemy_removes)
    ultimately have "r \<notin> set (enemies (fold (animate_enemy rng now) rs ?w))"
      using v by (intro fold_animate_absent) simp_all
    then show ?thesis by simp
  next
    case False
    with Cons.prems have r: "r \<in> set rs" "r < length (objects w)" by auto
    have "strays now ?w r"
      using animate_enemy_strays_other[OF x r(2) False] Cons.prems(4) by simp
    with Cons.IH[OF v _ r(1)] Cons.prems(2) show ?thesis by simp
  qed
qed

lemma fold_animate_spawned:
  assumes "\<forall>r\<in>set rs. r < length (objects w)" and "distinct rs"
  shows "spawned (fold (animate_enemy rng now) rs w)
           = spawned w + length (filter (strays now w) rs)
         \<and> length (objects (fold (animate_enemy rng now) rs w))
           = length (objects w) + length (filter (strays now w) rs)"
  using assms
proof (induction rs arbitrary: w)
  case Nil
  then show ?case by simp
next
  case (Cons x rs)
  let ?w = "animate_enemy rng now x w"
  have x: "x < length (objects w)" using Cons.prems(1) by simp
  have l: "length (objects w) \<le> length (objects ?w)" using x by (rule animate_enemy_length)
  have v: "\<forall>r\<in>set rs. r < length (objects ?w)" using Cons.prems(1) l by auto
  have d: "distinct rs" "x \<notin> set rs" using Cons.prems(2) by simp_all
  have "filter (strays now ?w) rs = filter (strays now w) rs"
  proof (rule filter_cong[OF refl])
    fix a assume a: "a \<in> set rs"
    then have "a < length (objects w)" "a \<noteq> x" using Cons.prems(1) d(2) by auto
    then show "strays now ?w a = strays now w a"
      using x by (simp add: animate_enemy_strays_other)
  qed
  with Cons.IH[OF v d(1)] show ?case
    using x by (cases "strays now w x") (simp_all add: animate_enemy_strays animate_enemy_stays)
qed

lemma animate_fields:
  "enemies (animate rng now w) = enemies (fold (animate_enemy rng now) (enemies w) w)"
  "objects (animate rng now w) = objects (fold (animate_enemy rng now) (enemies w) w)"
  "spawned (animate rng now w) = spawned (fold (animate_enemy rng now) (enemies w) w)"
  by (simp_all add: animate_def Let_def)

lemma eid_advanced: "eid (advanced now e) = eid e"
  by (simp add: advanced_def advance_def Let_def)

lemma fold_animate_enemies:
  assumes "\<forall>a\<in>set (pre @ rs @ post). a < length (objects w)"
    and "distinct (map (\<lambda>r. eid (objects w ! r)) rs)"
    and "\<forall>a\<in>set (pre @ post). \<forall>r\<in>set rs. eid (objects w ! a) \<noteq> eid (objects w ! r)"
    and "\<forall>k\<ge>spawned w. \<forall>r\<in>set rs. d_id (rng k) \<noteq> eid (objects w ! r)"
    and "enemies w = pre @ rs @ post"
  shows "enemies (fold (animate_enemy rng now) rs w)
           = pre @ filter (\<lambda>r. \<not> strays now w r) rs @ post
             @ [length (objects w) ..< length (objects w) + length (filter (strays now w) rs)]"
  using assms
proof (induction rs arbitrary: w pre post)
  case Nil
  then show ?case by simp
next
  case (Cons x rs)
  let ?w = "animate_enemy rng now x w"
  let ?L = "length (objects w)"
  have x: "x < ?L" using Cons.prems(1) by simp
  have vr: "\<forall>r\<in>set rs. r < ?L" using Cons.prems(1) by simp
  have dr: "distinct rs" "x \<notin> set rs"
    using Cons.prems(2) by (auto simp: distinct_map)
  have idx: "\<forall>r\<in>set rs. eid (objects w ! r) \<noteq> eid (objects w ! x)"
    using Cons.prems(2) by (force simp: image_iff)
  have other: "objects ?w ! a = objects w ! a" if "a < ?L" "a \<noteq> x" for a
    using animate_enemy_other[OF x that] .
  have same_r: "objects ?w ! r = objects w ! r" if "r \<in> set rs" for r
    using that vr dr(2) by (intro other) auto
  have st: "filter (strays now ?w) rs = filter (strays now w) rs"
    "filter (\<lambda>r. \<not> strays now ?w r) rs = filter (\<lambda>r. \<not> strays now w r) rs"
    using same_r by (auto intro!: filter_cong simp: strays_def)
  have d2: "distinct (map (\<lambda>r. eid (objects ?w ! r)) rs)"
  proof -
    have eq: "map (\<lambda>r. eid (objects ?w ! r)) rs = map (\<lambda>r. eid (objects w ! r)) rs"
      by (rule map_cong[OF refl]) (simp add: same_r)
    show ?thesis unfolding eq using Cons.prems(2) by simp
  qed
  show ?case
  proof (cases "strays now w x")
    case True
    note f = animate_enemy_strays[OF x True, of rng]
    have keep: "filter (\<lambda>a. eid ((objects w)[x := advanced now (objects w ! x)] ! a)
                              \<noteq> eid (advanced now (objects w ! x))) (pre @ x # rs @ post)
                  = pre @ rs @ post"
    proof -
      have a: "eid ((objects w)[x := advanced now (objects w ! x)] ! a) = eid (objects w ! a)"
        if "a < ?L" for a
        using that x by (cases "a = x") (simp_all add: eid_advanced)
      have "filter (\<lambda>a. eid ((objects w)[x := advanced now (objects w ! x)] ! a)
                              \<noteq> eid (advanced now (objects w ! x))) (pre @ x # rs @ post)
            = filter (\<lambda>a. eid (objects w ! a) \<noteq> eid (objects w ! x)) (pre @ x # rs @ post)"
        using Cons.prems(1) a by (intro filter_cong) (auto simp: eid_advanced)
      also have "\<dots> = pre @ rs @ post"
        using Cons.prems(3) idx by (auto simp: filter_id_conv)
      finally show ?thesis .
    qed
    have e: "enemies ?w = pre @ rs @ (post @ [?L])"
      using f(1) keep Cons.prems(5) by simp
    have l: "length (objects ?w) = Suc ?L" using f(2) by simp
    have v: "\<forall>a\<in>set (pre @ rs @ (post @ [?L])). a < length (objects ?w)"
      using Cons.prems(1) l by (auto simp: ball_Un less_Suc_eq)
    have newid: "eid (objects ?w ! ?L) = d_id (rng (spawned w))"
      using f(2) by (simp add: nth_append new_enemy_eid)
    have i3: "\<forall>a\<in>set (pre @ (post @ [?L])). \<forall>r\<in>set rs.
                eid (objects ?w ! a) \<noteq> eid (objects ?w ! r)"
    proof (intro ballI)
      fix a r assume a: "a \<in> set (pre @ (post @ [?L]))" and r: "r \<in> set rs"
      show "eid (objects ?w ! a) \<noteq> eid (objects ?w ! r)"
      proof (cases "a = ?L")
        case True
        then show ?thesis using newid same_r[OF r] Cons.prems(4) r by auto
      next
        case False
        with a have ap: "a \<in> set (pre @ post)" by auto
        then have al: "a < ?L" using Cons.prems(1) by auto
        have "a \<noteq> x" using Cons.prems(3) ap by auto
        then show ?thesis using other[OF al] same_r[OF r] Cons.prems(3) ap r by auto
      qed
    qed
    have i4: "\<forall>k\<ge>spawned ?w. \<forall>r\<in>set rs. d_id (rng k) \<noteq> eid (objects ?w ! r)"
      using Cons.prems(4) f(3) same_r by auto
    from Cons.IH[OF v d2 i3 i4 e]
    have "enemies (fold (animate_enemy rng now) rs ?w)
            = pre @ filter (\<lambda>r. \<not> strays now w r) rs @ post
              @ (?L # [Suc ?L ..< Suc ?L + length (filter (strays now w) rs)])"
      unfolding st l by simp
    then show ?thesis using True by (simp add: upt_conv_Cons del: upt_Suc)
  next
    case False
    note f = animate_enemy_stays[OF x False, of rng]
    have e: "enemies ?w = (pre @ [x]) @ rs @ post" using f(1) Cons.prems(5) by simp
    have l: "length (objects ?w) = ?L" using f(2) by simp
    have v: "\<forall>a\<in>set ((pre @ [x]) @ rs @ post). a < length (objects ?w)"
      using Cons.prems(1) l by (auto simp: ball_Un)
    have ex: "eid (objects ?w ! x) = eid (objects w ! x)"
      using f(2) x by (simp add: eid_advanced)
    have i3: "\<forall>a\<in>set ((pre @ [x]) @ post). \<forall>r\<in>set rs.
                eid (objects ?w ! a) \<noteq> eid (objects ?w ! r)"
    proof (intro ballI)
      fix a r assume a: "a \<in> set ((pre @ [x]) @ post)" and r: "r \<in> set rs"
      show "eid (objects ?w ! a) \<noteq> eid (objects ?w ! r)"
      proof (cases "a = x")
        case True
        then show ?thesis using ex same_r[OF r] idx r by auto
      next
        case False
        with a have ap: "a \<in> set (pre @ post)" by auto
        then have al: "a < ?L" using Cons.prems(1) by auto
        show ?thesis using other[OF al False] same_r[OF r] Cons.prems(3) ap r by auto
      qed
    qed
    have i4: "\<forall>k\<ge>spawned ?w. \<forall>r\<in>set rs. d_id (rng k) \<noteq> eid (objects ?w ! r)"
      using Cons.prems(4) f(3) same_r by auto
    from Cons.IH[OF v d2 i3 i4 e]
    show ?thesis using False l st by simp
  qed
qed

lemma fold_animate_keeps:
  assumes "\<forall>r\<in>set rs. r < length (objects w)" and "a < length (objects w)"
    and "a \<notin> set rs"
  shows "objects (fold (animate_enemy rng now) rs w) ! a = objects w ! a"
  using assms
proof (induction rs arbitrary: w)
  case Nil
  then show ?case by simp
next
  case (Cons x rs)
  let ?w = "animate_enemy rng now x w"
  have x: "x < length (objects w)" using Cons.prems(1) by simp
  have l: "length (objects w) \<le> length (objects ?w)" using x by (rule animate_enemy_length)
  have v: "\<forall>r\<in>set rs. r < length (objects ?w)" using Cons.prems(1) l by auto
  have a: "a < length (objects ?w)" "a \<notin> set rs" "a \<noteq> x"
    using Cons.prems(2,3) l by auto
  have "objects ?w ! a = objects w ! a"
    using x Cons.prems(2) a(3) by (rule animate_enemy_other)
  with Cons.IH[OF v a(1,2)] show ?case by simp
qed

lemma fold_animate_new:
  assumes "\<forall>r\<in>set rs. r < length (objects w)" and "distinct rs"
    and "j < length (filter (strays now w) rs)"
  shows "objects (fold (animate_enemy rng now) rs w) ! (length (objects w) + j)
           = new_enemy (rng (spawned w + j)) now"
  using assms
proof (induction rs arbitrary: w j)
  case Nil
  then show ?case by simp
next
  case (Cons x rs)
  let ?w = "animate_enemy rng now x w"
  let ?L = "length (objects w)"
  have x: "x < ?L" using Cons.prems(1) by simp
  have vr: "\<forall>r\<in>set rs. r < ?L" using Cons.prems(1) by simp
  have d: "distinct rs" "x \<notin> set rs" using Cons.prems(2) by simp_all
  have l: "?L \<le> length (objects ?w)" using x by (rule animate_enemy_length)
  have v: "\<forall>r\<in>set rs. r < length (objects ?w)" using vr l by auto
  have st: "filter (strays now ?w) rs = filter (strays now w) rs"
  proof (rule filter_cong[OF refl])
    fix a assume "a \<in> set rs"
    then have "a < ?L" "a \<noteq> x" using vr d(2) by auto
    then show "strays now ?w a = strays now w a"
      using x by (simp add: animate_enemy_strays_other)
  qed
  show ?case
  proof (cases "strays now w x")
    case True
    note f = animate_enemy_strays[OF x True, of rng]
    have len: "length (objects ?w) = Suc ?L" using f(2) by simp
    show ?thesis
    proof (cases j)
      case 0
      have "?L \<notin> set rs" using vr by auto
      moreover have "?L < length (objects ?w)" using len by simp
      ultimately have "objects (fold (animate_enemy rng now) rs ?w) ! ?L = objects ?w ! ?L"
        using v by (intro fold_animate_keeps) simp_all
      also have "\<dots> = new_enemy (rng (spawned w)) now"
        using f(2) by (simp add: nth_append)
      finally show ?thesis using 0 by simp
    next
      case (Suc j')
      with Cons.prems(3) True have "j' < length (filter (strays now ?w) rs)"
        by (simp add: st)
      from Cons.IH[OF v d(1) this] show ?thesis
        using Suc len f(3) by simp
    qed
  next
    case False
    note f = animate_enemy_stays[OF x False, of rng]
    have len: "length (objects ?w) = ?L" using f(2) by simp
    from Cons.prems(3) False have "j < length (filter (strays now ?w) rs)"
      by (simp add: st)
    from Cons.IH[OF v d(1) this] show ?thesis
      using len f(3) by simp
  qed
qed

text \<open>
  C5. In a frame, every target of the collection that lies beyond the bounding radius of
  30 once the frame has moved it (a dying target is not moved) is out of the collection
  when the frame ends, a dying one like any other, and the frame spawns one enemy for
  each such target: the loop body takes the target out and pushes the address of a newly
  spawned enemy as the last of the collection; over the frame the spawn count and the
  object store grow by the number of such targets, and the new objects are the enemies
  spawned from the next draws. With ids that are unique (the ids of the collection
  pairwise different, the drawn ids different from them), the collection after the
  frame is the targets that did not stray, in order, followed by the replacements, and
  its size is what it was. (The collection holds valid, pairwise different addresses.)
\<close>

theorem stray_removed:
  assumes "\<forall>r\<in>set (enemies w). r < length (objects w)" and "distinct (enemies w)"
  shows "(r \<in> set (enemies w) \<longrightarrow> strays now w r \<longrightarrow>
            r \<notin> set (enemies (animate rng now w)))
         \<and> (r \<in> set (enemies w) \<longrightarrow> isDying (objects w ! r) \<longrightarrow>
              length_v (position (mesh (objects w ! r))) > 30 \<longrightarrow>
              r \<notin> set (enemies (animate rng now w)))
         \<and> spawned (animate rng now w)
              = spawned w + length (filter (strays now w) (enemies w))
         \<and> length (objects (animate rng now w))
              = length (objects w) + length (filter (strays now w) (enemies w))
         \<and> (r \<in> set (enemies w) \<longrightarrow> strays now w r \<longrightarrow>
              r \<notin> set (enemies (animate_enemy rng now r w))
              \<and> enemies (animate_enemy rng now r w)
                  = filter (\<lambda>a. eid ((objects w)[r := advanced now (objects w ! r)] ! a)
                                  \<noteq> eid (advanced now (objects w ! r))) (enemies w)
                    @ [length (objects w)]
              \<and> objects (animate_enemy rng now r w) ! length (objects w)
                  = new_enemy (rng (spawned w)) now)
         \<and> (\<forall>j<length (filter (strays now w) (enemies w)).
              objects (animate rng now w) ! (length (objects w) + j)
                = new_enemy (rng (spawned w + j)) now)
         \<and> (distinct (map (\<lambda>r. eid (objects w ! r)) (enemies w)) \<longrightarrow>
              (\<forall>k\<ge>spawned w. \<forall>r\<in>set (enemies w). d_id (rng k) \<noteq> eid (objects w ! r)) \<longrightarrow>
              enemies (animate rng now w)
                = filter (\<lambda>r. \<not> strays now w r) (enemies w)
                  @ [length (objects w) ..<
                     length (objects w) + length (filter (strays now w) (enemies w))]
              \<and> length (enemies (animate rng now w)) = length (enemies w))"
proof -
  let ?n = "length (filter (strays now w) (enemies w))"
  have a: "r \<in> set (enemies w) \<longrightarrow> strays now w r \<longrightarrow>
            r \<notin> set (enemies (animate rng now w))"
    using fold_animate_removes[OF assms, of r now rng] by (simp add: animate_fields)
  have "isDying (objects w ! r) \<Longrightarrow> length_v (position (mesh (objects w ! r))) > 30 \<Longrightarrow>
        strays now w r"
    by (simp add: strays_def advanced_def)
  with a have b: "r \<in> set (enemies w) \<longrightarrow> isDying (objects w ! r) \<longrightarrow>
              length_v (position (mesh (objects w ! r))) > 30 \<longrightarrow>
              r \<notin> set (enemies (animate rng now w))"
    by blast
  have c: "spawned (animate rng now w) = spawned w + ?n
           \<and> length (objects (animate rng now w)) = length (objects w) + ?n"
    using fold_animate_spawned[OF assms, of rng now] by (simp add: animate_fields)
  have d: "r \<in> set (enemies w) \<longrightarrow> strays now w r \<longrightarrow>
              r \<notin> set (enemies (animate_enemy rng now r w))
              \<and> enemies (animate_enemy rng now r w)
                  = filter (\<lambda>a. eid ((objects w)[r := advanced now (objects w ! r)] ! a)
                                  \<noteq> eid (advanced now (objects w ! r))) (enemies w)
                    @ [length (objects w)]
              \<and> objects (animate_enemy rng now r w) ! length (objects w)
                  = new_enemy (rng (spawned w)) now"
  proof (intro impI)
    assume r: "r \<in> set (enemies w)" and s: "strays now w r"
    from r assms(1) have v: "r < length (objects w)" by simp
    note f = animate_enemy_strays[OF v s, of rng]
    have "objects (animate_enemy rng now r w) ! length (objects w)
            = new_enemy (rng (spawned w)) now"
      using f(2) by (simp add: nth_append)
    with animate_enemy_removes[OF v s, of rng] f(1)
    show "r \<notin> set (enemies (animate_enemy rng now r w))
              \<and> enemies (animate_enemy rng now r w)
                  = filter (\<lambda>a. eid ((objects w)[r := advanced now (objects w ! r)] ! a)
                                  \<noteq> eid (advanced now (objects w ! r))) (enemies w)
                    @ [length (objects w)]
              \<and> objects (animate_enemy rng now r w) ! length (objects w)
                  = new_enemy (rng (spawned w)) now"
      by blast
  qed
  have e: "\<forall>j<?n. objects (animate rng now w) ! (length (objects w) + j)
                = new_enemy (rng (spawned w + j)) now"
    using fold_animate_new[OF assms, of _ now rng] by (simp add: animate_fields)
  have f: "distinct (map (\<lambda>r. eid (objects w ! r)) (enemies w)) \<longrightarrow>
              (\<forall>k\<ge>spawned w. \<forall>r\<in>set (enemies w). d_id (rng k) \<noteq> eid (objects w ! r)) \<longrightarrow>
              enemies (animate rng now w)
                = filter (\<lambda>r. \<not> strays now w r) (enemies w)
                  @ [length (objects w) ..< length (objects w) + ?n]
              \<and> length (enemies (animate rng now w)) = length (enemies w)"
  proof (intro impI)
    assume i: "distinct (map (\<lambda>r. eid (objects w ! r)) (enemies w))"
      and k: "\<forall>k\<ge>spawned w. \<forall>r\<in>set (enemies w). d_id (rng k) \<noteq> eid (objects w ! r)"
    have "enemies (fold (animate_enemy rng now) (enemies w) w)
            = [] @ filter (\<lambda>r. \<not> strays now w r) (enemies w) @ []
              @ [length (objects w) ..< length (objects w) + ?n]"
      using assms(1) i k by (intro fold_animate_enemies) simp_all
    then have g: "enemies (animate rng now w)
                = filter (\<lambda>r. \<not> strays now w r) (enemies w)
                  @ [length (objects w) ..< length (objects w) + ?n]"
      by (simp add: animate_fields)
    have "length (filter (\<lambda>r. \<not> strays now w r) (enemies w)) + ?n = length (enemies w)"
      using sum_length_filter_compl[of "strays now w" "enemies w"] by simp
    with g show "enemies (animate rng now w)
                = filter (\<lambda>r. \<not> strays now w r) (enemies w)
                  @ [length (objects w) ..< length (objects w) + ?n]
              \<and> length (enemies (animate rng now w)) = length (enemies w)"
      by simp
  qed
  show ?thesis using a b c d e f by blast
qed

lemma length_v_depth: "length_v (Vector3 0 0 z) = \<bar>z\<bar>"
  by (simp add: length_v_def flip: power2_eq_square)

theorem stray_removed_witness:
  "isDying (objects far_dying ! 0)
   \<and> length_v (position (mesh (objects far_dying ! 0))) = 31
   \<and> enemies far_dying = [0, 1]
   \<and> 0 \<notin> set (enemies (animate draws 0 far_dying))
   \<and> spawned far_dying = 0
   \<and> spawned (animate draws 0 far_dying) = 1
   \<and> length (objects (animate draws 0 far_dying)) = 3
   \<and> objects (animate draws 0 far_dying) ! 2 = new_enemy (draws 0) 0
   \<and> enemies (animate draws 0 far_dying) = [1, 2]
   \<and> length (enemies (animate draws 0 far_dying)) = 2"
proof -
  have w: "objects far_dying = [target ''a'' (Vector3 0 0 (- 31)) True 100,
                                target ''b'' (Vector3 0 0 (- 20)) False 250]"
    "enemies far_dying = [0, 1]" "spawned far_dying = 0"
    by (simp_all add: far_dying_def arena_def unmounted_def upt_rec)
  have h: "\<forall>r\<in>set (enemies far_dying). r < length (objects far_dying)"
    "distinct (enemies far_dying)"
    by (simp_all add: w)
  have d: "isDying (objects far_dying ! 0)"
    "length_v (position (mesh (objects far_dying ! 0))) = 31"
    by (simp_all add: w target_def length_v_depth)
  have s: "strays 0 far_dying 0" "\<not> strays 0 far_dying 1"
    by (simp_all add: strays_def advanced_def advance_def Let_def w target_def add_v_def
        length_v_depth)
  have i: "distinct (map (\<lambda>r. eid (objects far_dying ! r)) (enemies far_dying))"
    by (simp add: w target_def)
  have k: "\<forall>k\<ge>spawned far_dying. \<forall>r\<in>set (enemies far_dying).
             d_id (draws k) \<noteq> eid (objects far_dying ! r)"
    by (simp add: w target_def draws_def)
  have u: "[2..<3] = [2::nat]" by (simp add: upt_rec)
  show ?thesis
    using stray_removed[OF h, of 0 0 draws] d s i k
    by (simp add: w u numeral_2_eq_2)
qed

section \<open>Properties: the aim assist\<close>






















end
